theory Spec2Isabelle
  imports Main "HOL-Library.AList" "HOL-Library.Multiset"
begin

section \<open>Domain model (package domain)\<close>

text \<open>
  Error codes and the application error of \<^verbatim>\<open>internal/domain/errors.go\<close>. A Go
  run-time panic (an index out of range) is the extra value \<open>Panic\<close>.
\<close>

datatype ErrorCode =
    ErrCodeTeamExists | ErrCodePRExists | ErrCodePRMerged | ErrCodeNotAssigned
  | ErrCodeNoCandidate | ErrCodeNotFound | ErrCodeInternal | ErrCodeBadRequest
  | ErrCodeUnauth

datatype error = AppError ErrorCode string | Panic

definition NewAppError :: "ErrorCode \<Rightarrow> string \<Rightarrow> error" where
  "NewAppError code message = AppError code message"

definition ErrTeamAlreadyExists :: error where
  "ErrTeamAlreadyExists = NewAppError ErrCodeTeamExists ''team_name already exists''"

definition ErrPRAlreadyExists :: error where
  "ErrPRAlreadyExists = NewAppError ErrCodePRExists ''PR id already exists''"

definition ErrPRMerged :: error where
  "ErrPRMerged = NewAppError ErrCodePRMerged ''cannot reassign on merged PR''"

definition ErrReviewerNotAssigned :: error where
  "ErrReviewerNotAssigned = NewAppError ErrCodeNotAssigned ''reviewer is not assigned to this PR''"

definition ErrNoActiveCandidate :: error where
  "ErrNoActiveCandidate = NewAppError ErrCodeNoCandidate ''no active replacement candidate in team''"

definition ErrTeamNotFound :: error where
  "ErrTeamNotFound = NewAppError ErrCodeNotFound ''team not found''"

definition ErrUserNotFound :: error where
  "ErrUserNotFound = NewAppError ErrCodeNotFound ''user not found''"

definition ErrPRNotFound :: error where
  "ErrPRNotFound = NewAppError ErrCodeNotFound ''PR not found''"

fun error_code :: "error \<Rightarrow> ErrorCode option" where
  "error_code (AppError code message) = Some code"
| "error_code Panic = None"

text \<open>
  The structs of the domain package. A field name that several Go structs share gets a
  prefix naming its struct. A \<^verbatim>\<open>*time.Time\<close> is an optional clock reading.
\<close>

type_synonym time = nat

record User =
  UserID :: string
  Username :: string
  TeamName :: string
  IsActive :: bool

record Team =
  team_TeamName :: string
  Members :: "User list"

record TeamMember =
  tm_UserID :: string
  tm_Username :: string
  tm_IsActive :: bool

record TeamResponse =
  tr_TeamName :: string
  tr_Members :: "TeamMember list"

datatype PRStatus = PRStatusOpen | PRStatusMerged

record PullRequest =
  PullRequestID :: string
  PullRequestName :: string
  AuthorID :: string
  Status :: PRStatus
  CreatedAt :: "time option"
  MergedAt :: "time option"

record PullRequestResponse =
  resp_PullRequestID :: string
  resp_PullRequestName :: string
  resp_AuthorID :: string
  resp_Status :: PRStatus
  AssignedReviewers :: "string list"
  resp_CreatedAt :: "time option"
  resp_MergedAt :: "time option"

record CreateTeamRequest =
  ctr_TeamName :: string
  ctr_Members :: "TeamMember list"

record CreatePRRequest =
  cpr_PullRequestID :: string
  cpr_PullRequestName :: string
  cpr_AuthorID :: string

record ReassignRequest =
  rr_PullRequestID :: string
  OldUserID :: string

record ReassignResponse =
  PR :: PullRequestResponse
  ReplacedBy :: string

record SetIsActiveRequest =
  sia_UserID :: string
  sia_IsActive :: bool

record DeactivateTeamUsersRequest =
  dtu_TeamName :: string
  UserIDs :: "string list"

record PRReassignmentSummary =
  sum_PullRequestID :: string
  OldReviewers :: "string list"
  NewReviewers :: "string list"

record DeactivateTeamUsersResponse =
  DeactivatedUsers :: "string list"
  ReassignedPRs :: "PRReassignmentSummary list"

record PRReassignment =
  ra_PullRequestID :: string
  OldReviewerID :: string
  NewReviewerID :: string

section \<open>The in-memory repository (storage/memory/repo.go)\<close>

text \<open>
  Each Go map of \<^verbatim>\<open>MemoryRepository\<close> is an association list: \<open>map_of\<close> reads a
  key, \<open>AList.update\<close> writes one, and a \<^verbatim>\<open>range\<close> loop visits the entries in list
  order. Go leaves the iteration order of a map unspecified; the list order stands for
  whichever order the run time picks, and no theorem below depends on a particular one.
  The mutex is not modelled: every operation runs alone.
\<close>

record MemoryRepository =
  teams :: "(string \<times> Team) list"
  users :: "(string \<times> User) list"
  prs :: "(string \<times> PullRequest) list"
  prReviewers :: "(string \<times> string list) list"

definition NewMemoryRepository :: MemoryRepository where
  "NewMemoryRepository = \<lparr>teams = [], users = [], prs = [], prReviewers = []\<rparr>"

text \<open>Reading \<^verbatim>\<open>r.prReviewers[prID]\<close>: a missing key gives the nil slice.\<close>

definition reviewersAt :: "MemoryRepository \<Rightarrow> string \<Rightarrow> string list" where
  "reviewersAt r prID = (case map_of (prReviewers r) prID of None \<Rightarrow> [] | Some revs \<Rightarrow> revs)"

definition storeMember :: "string \<Rightarrow> User \<Rightarrow> (string \<times> User) list \<Rightarrow> (string \<times> User) list" where
  "storeMember teamName m us = AList.update (UserID m) (m\<lparr>TeamName := teamName\<rparr>) us"

definition repo_CreateTeam :: "MemoryRepository \<Rightarrow> Team \<Rightarrow> User list \<Rightarrow> error + MemoryRepository" where
  "repo_CreateTeam r team members =
     (if map_of (teams r) (team_TeamName team) \<noteq> None then Inl ErrTeamAlreadyExists
      else Inr (r\<lparr>teams := AList.update (team_TeamName team)
                            \<lparr>team_TeamName = team_TeamName team, Members = []\<rparr> (teams r),
                  users := fold (storeMember (team_TeamName team)) members (users r)\<rparr>))"

definition repo_GetTeam :: "MemoryRepository \<Rightarrow> string \<Rightarrow> error + Team" where
  "repo_GetTeam r teamName =
     (case map_of (teams r) teamName of
        None \<Rightarrow> Inl ErrTeamNotFound
      | Some team \<Rightarrow>
          Inr \<lparr>team_TeamName = team_TeamName team,
               Members = map snd (filter (\<lambda>(k, user). TeamName user = teamName) (users r))\<rparr>)"

definition TeamExists :: "MemoryRepository \<Rightarrow> string \<Rightarrow> bool" where
  "TeamExists r teamName = (map_of (teams r) teamName \<noteq> None)"

definition GetUser :: "MemoryRepository \<Rightarrow> string \<Rightarrow> error + User" where
  "GetUser r userID =
     (case map_of (users r) userID of None \<Rightarrow> Inl ErrUserNotFound | Some user \<Rightarrow> Inr user)"

definition repo_SetUserActive :: "MemoryRepository \<Rightarrow> string \<Rightarrow> bool \<Rightarrow> error + MemoryRepository" where
  "repo_SetUserActive r userID isActive =
     (case map_of (users r) userID of
        None \<Rightarrow> Inl ErrUserNotFound
      | Some user \<Rightarrow> Inr (r\<lparr>users := AList.update userID (user\<lparr>IsActive := isActive\<rparr>) (users r)\<rparr>))"

definition GetActiveTeamMembers :: "MemoryRepository \<Rightarrow> string \<Rightarrow> string \<Rightarrow> User list" where
  "GetActiveTeamMembers r teamName excludeUserID =
     map snd (filter (\<lambda>(k, user). TeamName user = teamName \<and> IsActive user
                                   \<and> UserID user \<noteq> excludeUserID) (users r))"

definition repo_CreatePR :: "MemoryRepository \<Rightarrow> PullRequest \<Rightarrow> string list \<Rightarrow> error + MemoryRepository" where
  "repo_CreatePR r pr reviewers =
     (if map_of (prs r) (PullRequestID pr) \<noteq> None then Inl ErrPRAlreadyExists
      else Inr (r\<lparr>prs := AList.update (PullRequestID pr) pr (prs r),
                  prReviewers := AList.update (PullRequestID pr) reviewers (prReviewers r)\<rparr>))"

definition GetPRWithReviewers :: "MemoryRepository \<Rightarrow> string \<Rightarrow> error + (PullRequest \<times> string list)" where
  "GetPRWithReviewers r prID =
     (case map_of (prs r) prID of
        None \<Rightarrow> Inl ErrPRNotFound
      | Some pr \<Rightarrow> Inr (pr, reviewersAt r prID))"

definition PRExists :: "MemoryRepository \<Rightarrow> string \<Rightarrow> bool" where
  "PRExists r prID = (map_of (prs r) prID \<noteq> None)"

definition repo_MergePR :: "MemoryRepository \<Rightarrow> time \<Rightarrow> string \<Rightarrow> error + MemoryRepository" where
  "repo_MergePR r now prID =
     (case map_of (prs r) prID of
        None \<Rightarrow> Inl ErrPRNotFound
      | Some pr \<Rightarrow>
          Inr (r\<lparr>prs := AList.update prID (pr\<lparr>Status := PRStatusMerged, MergedAt := Some now\<rparr>) (prs r)\<rparr>))"

definition AddReviewer :: "MemoryRepository \<Rightarrow> string \<Rightarrow> string \<Rightarrow> MemoryRepository" where
  "AddReviewer r prID userID =
     r\<lparr>prReviewers := AList.update prID (reviewersAt r prID @ [userID]) (prReviewers r)\<rparr>"

text \<open>\<^verbatim>\<open>RemoveReviewer\<close> cuts the first occurrence only and writes nothing when there is none.\<close>

definition RemoveReviewer :: "MemoryRepository \<Rightarrow> string \<Rightarrow> string \<Rightarrow> MemoryRepository" where
  "RemoveReviewer r prID userID =
     (if userID \<in> set (reviewersAt r prID)
      then r\<lparr>prReviewers := AList.update prID (remove1 userID (reviewersAt r prID)) (prReviewers r)\<rparr>
      else r)"

definition IsReviewerAssigned :: "MemoryRepository \<Rightarrow> string \<Rightarrow> string \<Rightarrow> bool" where
  "IsReviewerAssigned r prID userID =
     (case map_of (prReviewers r) prID of None \<Rightarrow> False | Some reviewers \<Rightarrow> userID \<in> set reviewers)"

definition deactivateOne :: "string \<Rightarrow> (string \<times> User) list \<Rightarrow> (string \<times> User) list" where
  "deactivateOne userID us =
     (case map_of us userID of
        None \<Rightarrow> us
      | Some user \<Rightarrow> AList.update userID (user\<lparr>IsActive := False\<rparr>) us)"

definition DeactivateUsers :: "MemoryRepository \<Rightarrow> string list \<Rightarrow> MemoryRepository" where
  "DeactivateUsers r userIDs = r\<lparr>users := fold deactivateOne userIDs (users r)\<rparr>"

text \<open>A Go \<^verbatim>\<open>map[string]bool\<close> used as a set: a missing key reads as false.\<close>

definition createUserIDSet :: "string list \<Rightarrow> string \<Rightarrow> bool" where
  "createUserIDSet userIDs = fold (\<lambda>userID s. s(userID := True)) userIDs (\<lambda>_. False)"

definition lookupReviewers :: "(string \<rightharpoonup> string list) \<Rightarrow> string \<Rightarrow> string list" where
  "lookupReviewers reviewersMap prID = (case reviewersMap prID of None \<Rightarrow> [] | Some revs \<Rightarrow> revs)"

definition collectOpenPR ::
  "MemoryRepository \<Rightarrow> (string \<Rightarrow> bool) \<Rightarrow> string \<times> PullRequest
     \<Rightarrow> PullRequest list \<times> (string \<rightharpoonup> string list) \<Rightarrow> PullRequest list \<times> (string \<rightharpoonup> string list)" where
  "collectOpenPR r reviewerSet entry acc =
     (case entry of (prID, pr) \<Rightarrow>
        if Status pr \<noteq> PRStatusOpen then acc
        else if list_ex reviewerSet (reviewersAt r prID)
             then (fst acc @ [pr], (snd acc)(prID \<mapsto> reviewersAt r prID))
             else acc)"

definition GetOpenPRsWithReviewers ::
  "MemoryRepository \<Rightarrow> string list \<Rightarrow> PullRequest list \<times> (string \<rightharpoonup> string list)" where
  "GetOpenPRsWithReviewers r reviewerIDs =
     fold (collectOpenPR r (createUserIDSet reviewerIDs)) (prs r) ([], Map.empty)"

definition reassignOne :: "PRReassignment \<Rightarrow> MemoryRepository \<Rightarrow> MemoryRepository" where
  "reassignOne reassign r =
     (let reviewers = reviewersAt r (ra_PullRequestID reassign);
          newReviewers = filter (\<lambda>revID. revID \<noteq> OldReviewerID reassign) reviewers;
          newReviewers' = (if NewReviewerID reassign \<noteq> '''' then newReviewers @ [NewReviewerID reassign]
                           else newReviewers)
      in r\<lparr>prReviewers := AList.update (ra_PullRequestID reassign) newReviewers' (prReviewers r)\<rparr>)"

definition BulkReassignReviewers :: "MemoryRepository \<Rightarrow> PRReassignment list \<Rightarrow> MemoryRepository" where
  "BulkReassignReviewers r reassignments = fold reassignOne reassignments r"

section \<open>The PR service (usecase/pr_service.go)\<close>

text \<open>
  The transaction manager that goes with the in-memory repository runs the function it is
  given and nothing more, so a service operation is the body of its transaction. Each
  operation returns the repository it leaves behind together with its result or error.
  The random source and the clock are arguments: \<open>Perm n\<close> and \<open>Intn n\<close> are what
  \<^verbatim>\<open>s.rand.Perm(n)\<close> and \<^verbatim>\<open>s.rand.Intn(n)\<close> return, \<open>now\<close> is \<^verbatim>\<open>time.Now()\<close>.
\<close>

definition indexAt :: "'a list \<Rightarrow> nat \<Rightarrow> error + 'a" where
  "indexAt xs i = (if i < length xs then Inr (xs ! i) else Inl Panic)"

fun pickByPerm :: "User list \<Rightarrow> nat list \<Rightarrow> nat list \<Rightarrow> error + User list" where
  "pickByPerm candidates perm [] = Inr []"
| "pickByPerm candidates perm (i # rest) =
     (case indexAt perm i of
        Inl e \<Rightarrow> Inl e
      | Inr j \<Rightarrow>
          (case indexAt candidates j of
             Inl e \<Rightarrow> Inl e
           | Inr c \<Rightarrow>
               (case pickByPerm candidates perm rest of
                  Inl e \<Rightarrow> Inl e
                | Inr selected \<Rightarrow> Inr (c # selected))))"

definition selectReviewers :: "(nat \<Rightarrow> nat list) \<Rightarrow> User list \<Rightarrow> nat \<Rightarrow> error + User list" where
  "selectReviewers Perm candidates n =
     (if length candidates = 0 then Inr []
      else if length candidates \<le> n then Inr candidates
      else pickByPerm candidates (Perm (length candidates)) [0..<n])"

definition filterAvailableReviewers :: "User list \<Rightarrow> PullRequest \<Rightarrow> string list \<Rightarrow> User list" where
  "filterAvailableReviewers candidates pr reviewers =
     filter (\<lambda>c. UserID c \<noteq> AuthorID pr \<and> UserID c \<notin> set reviewers) candidates"

definition prResponse :: "PullRequest \<Rightarrow> string list \<Rightarrow> PullRequestResponse" where
  "prResponse pr reviewers =
     \<lparr>resp_PullRequestID = PullRequestID pr,
      resp_PullRequestName = PullRequestName pr,
      resp_AuthorID = AuthorID pr,
      resp_Status = Status pr,
      AssignedReviewers = reviewers,
      resp_CreatedAt = CreatedAt pr,
      resp_MergedAt = MergedAt pr\<rparr>"

definition CreatePR ::
  "MemoryRepository \<Rightarrow> (nat \<Rightarrow> nat list) \<Rightarrow> time \<Rightarrow> CreatePRRequest
     \<Rightarrow> MemoryRepository \<times> (error + PullRequestResponse)" where
  "CreatePR r Perm now req =
     (if PRExists r (cpr_PullRequestID req) then (r, Inl ErrPRAlreadyExists)
      else case GetUser r (cpr_AuthorID req) of
        Inl e \<Rightarrow> (r, Inl e)
      | Inr author \<Rightarrow>
          (case selectReviewers Perm (GetActiveTeamMembers r (TeamName author) (cpr_AuthorID req)) 2 of
             Inl e \<Rightarrow> (r, Inl e)
           | Inr reviewers \<Rightarrow>
               (let reviewerIDs = map UserID reviewers;
                    pr = \<lparr>PullRequestID = cpr_PullRequestID req,
                          PullRequestName = cpr_PullRequestName req,
                          AuthorID = cpr_AuthorID req,
                          Status = PRStatusOpen,
                          CreatedAt = Some now,
                          MergedAt = None\<rparr>
                in case repo_CreatePR r pr reviewerIDs of
                     Inl e \<Rightarrow> (r, Inl e)
                   | Inr r' \<Rightarrow> (r', Inr (prResponse pr reviewerIDs)))))"

definition MergePR ::
  "MemoryRepository \<Rightarrow> time \<Rightarrow> string \<Rightarrow> MemoryRepository \<times> (error + PullRequestResponse)" where
  "MergePR r now prID =
     (case GetPRWithReviewers r prID of
        Inl e \<Rightarrow> (r, Inl e)
      | Inr (pr, reviewers) \<Rightarrow>
          if Status pr = PRStatusMerged then (r, Inr (prResponse pr reviewers))
          else (case repo_MergePR r now prID of
                  Inl e \<Rightarrow> (r, Inl e)
                | Inr r' \<Rightarrow>
                    (case GetPRWithReviewers r' prID of
                       Inl e \<Rightarrow> (r', Inl e)
                     | Inr (pr', reviewers') \<Rightarrow> (r', Inr (prResponse pr' reviewers')))))"

definition ReassignReviewer ::
  "MemoryRepository \<Rightarrow> (nat \<Rightarrow> nat) \<Rightarrow> ReassignRequest
     \<Rightarrow> MemoryRepository \<times> (error + ReassignResponse)" where
  "ReassignReviewer r Intn req =
     (case GetPRWithReviewers r (rr_PullRequestID req) of
        Inl e \<Rightarrow> (r, Inl e)
      | Inr (pr, reviewers) \<Rightarrow>
          if Status pr = PRStatusMerged then (r, Inl ErrPRMerged)
          else if \<not> IsReviewerAssigned r (rr_PullRequestID req) (OldUserID req)
          then (r, Inl ErrReviewerNotAssigned)
          else (case GetUser r (OldUserID req) of
                  Inl e \<Rightarrow> (r, Inl e)
                | Inr oldReviewer \<Rightarrow>
                    (let candidates = GetActiveTeamMembers r (TeamName oldReviewer) (OldUserID req);
                         available = filterAvailableReviewers candidates pr reviewers
                     in if length available = 0 then (r, Inl ErrNoActiveCandidate)
                        else (case indexAt available (Intn (length available)) of
                                Inl e \<Rightarrow> (r, Inl e)
                              | Inr newReviewer \<Rightarrow>
                                  (let r1 = RemoveReviewer r (rr_PullRequestID req) (OldUserID req);
                                       r2 = AddReviewer r1 (rr_PullRequestID req) (UserID newReviewer)
                                   in case GetPRWithReviewers r2 (rr_PullRequestID req) of
                                        Inl e \<Rightarrow> (r2, Inl e)
                                      | Inr (updatedPR, revs) \<Rightarrow>
                                          (r2, Inr \<lparr>PR = prResponse updatedPR revs,
                                                    ReplacedBy = UserID newReviewer\<rparr>))))))"

section \<open>The team service (usecase/team_service.go)\<close>

definition CreateTeam ::
  "MemoryRepository \<Rightarrow> CreateTeamRequest \<Rightarrow> MemoryRepository \<times> (error + TeamResponse)" where
  "CreateTeam r req =
     (if TeamExists r (ctr_TeamName req) then (r, Inl ErrTeamAlreadyExists)
      else (let team = \<lparr>team_TeamName = ctr_TeamName req, Members = []\<rparr>;
                members = map (\<lambda>m. \<lparr>UserID = tm_UserID m, Username = tm_Username m,
                                     TeamName = ctr_TeamName req, IsActive = tm_IsActive m\<rparr>)
                              (ctr_Members req)
            in case repo_CreateTeam r team members of
                 Inl e \<Rightarrow> (r, Inl e)
               | Inr r' \<Rightarrow> (r', Inr \<lparr>tr_TeamName = ctr_TeamName req, tr_Members = ctr_Members req\<rparr>)))"

definition filterValidTeamUsers :: "MemoryRepository \<Rightarrow> DeactivateTeamUsersRequest \<Rightarrow> string list" where
  "filterValidTeamUsers r req =
     filter (\<lambda>userID. case GetUser r userID of
                        Inl e \<Rightarrow> False
                      | Inr user \<Rightarrow> TeamName user = dtu_TeamName req)
            (UserIDs req)"

definition getValidTeamUserIDsForDeactivation ::
  "MemoryRepository \<Rightarrow> DeactivateTeamUsersRequest \<Rightarrow> error + string list" where
  "getValidTeamUserIDsForDeactivation r req =
     (case repo_GetTeam r (dtu_TeamName req) of
        Inl e \<Rightarrow> Inl e
      | Inr team \<Rightarrow>
          (let validUserIDs = filterValidTeamUsers r req
           in if length validUserIDs = 0
              then Inl (NewAppError ErrCodeBadRequest ''no valid users to deactivate'')
              else Inr validUserIDs))"

definition isValidReplacementCandidate ::
  "User \<Rightarrow> string \<Rightarrow> (string \<Rightarrow> bool) \<Rightarrow> (string \<Rightarrow> bool) \<Rightarrow> bool" where
  "isValidReplacementCandidate candidate authorID assignedReviewers deactivatingSet =
     (if UserID candidate = authorID then False
      else if assignedReviewers (UserID candidate) then False
      else if deactivatingSet (UserID candidate) then False
      else True)"

fun firstValidCandidate ::
  "User list \<Rightarrow> string \<Rightarrow> (string \<Rightarrow> bool) \<Rightarrow> (string \<Rightarrow> bool) \<Rightarrow> string" where
  "firstValidCandidate [] authorID assignedReviewers deactivatingSet = ''''"
| "firstValidCandidate (candidate # rest) authorID assignedReviewers deactivatingSet =
     (if isValidReplacementCandidate candidate authorID assignedReviewers deactivatingSet
      then UserID candidate
      else firstValidCandidate rest authorID assignedReviewers deactivatingSet)"

definition findReviewerReplacement ::
  "MemoryRepository \<Rightarrow> string \<Rightarrow> User \<Rightarrow> (string \<Rightarrow> bool) \<Rightarrow> (string \<Rightarrow> bool) \<Rightarrow> string" where
  "findReviewerReplacement r reviewerID author assignedReviewers deactivatingSet =
     (case GetUser r reviewerID of
        Inl e \<Rightarrow> ''''
      | Inr reviewer \<Rightarrow>
          firstValidCandidate (GetActiveTeamMembers r (TeamName reviewer) reviewerID)
            (UserID author) assignedReviewers deactivatingSet)"

text \<open>
  The two loops of \<^verbatim>\<open>processPRReassignments\<close>: the first keeps the staying reviewers,
  the second plans one record for each reviewer being removed. The empty string is
  the code's "no replacement".
\<close>

fun keepStaying ::
  "(string \<Rightarrow> bool) \<Rightarrow> string list \<Rightarrow> (string \<Rightarrow> bool) \<times> string list
     \<Rightarrow> (string \<Rightarrow> bool) \<times> string list" where
  "keepStaying deactivatingSet [] st = st"
| "keepStaying deactivatingSet (reviewerID # rest) (assignedReviewers, newReviewers) =
     (if \<not> deactivatingSet reviewerID
      then keepStaying deactivatingSet rest
             (assignedReviewers(reviewerID := True), newReviewers @ [reviewerID])
      else keepStaying deactivatingSet rest (assignedReviewers, newReviewers))"

fun replaceRemoved ::
  "MemoryRepository \<Rightarrow> PullRequest \<Rightarrow> User \<Rightarrow> (string \<Rightarrow> bool) \<Rightarrow> string list
     \<Rightarrow> PRReassignment list \<times> string list \<times> string list \<times> (string \<Rightarrow> bool)
     \<Rightarrow> PRReassignment list \<times> string list \<times> string list \<times> (string \<Rightarrow> bool)" where
  "replaceRemoved r pr author deactivatingSet [] st = st"
| "replaceRemoved r pr author deactivatingSet (reviewerID # rest)
       (reassignments, oldReviewers, newReviewers, assignedReviewers) =
     (if \<not> deactivatingSet reviewerID
      then replaceRemoved r pr author deactivatingSet rest
             (reassignments, oldReviewers, newReviewers, assignedReviewers)
      else (let replacement =
                  findReviewerReplacement r reviewerID author assignedReviewers deactivatingSet
            in replaceRemoved r pr author deactivatingSet rest
                 (reassignments @ [\<lparr>ra_PullRequestID = PullRequestID pr,
                                     OldReviewerID = reviewerID,
                                     NewReviewerID = replacement\<rparr>],
                  oldReviewers @ [reviewerID],
                  (if replacement \<noteq> '''' then newReviewers @ [replacement] else newReviewers),
                  (if replacement \<noteq> '''' then assignedReviewers(replacement := True)
                   else assignedReviewers))))"

definition processPRReassignments ::
  "MemoryRepository \<Rightarrow> PullRequest \<Rightarrow> string list \<Rightarrow> (string \<Rightarrow> bool)
     \<Rightarrow> PRReassignment list \<times> PRReassignmentSummary" where
  "processPRReassignments r pr currentReviewers deactivatingSet =
     (case GetUser r (AuthorID pr) of
        Inl e \<Rightarrow> ([], \<lparr>sum_PullRequestID = '''', OldReviewers = [], NewReviewers = []\<rparr>)
      | Inr author \<Rightarrow>
          (case keepStaying deactivatingSet currentReviewers (\<lambda>_. False, []) of
             (assignedReviewers, newReviewers) \<Rightarrow>
               (case replaceRemoved r pr author deactivatingSet currentReviewers
                       ([], [], newReviewers, assignedReviewers) of
                  (reassignments, oldReviewers, newReviewers', assignedReviewers') \<Rightarrow>
                    (reassignments,
                     \<lparr>sum_PullRequestID = PullRequestID pr,
                      OldReviewers = oldReviewers,
                      NewReviewers = newReviewers'\<rparr>))))"

fun planReviewerLoop ::
  "MemoryRepository \<Rightarrow> (string \<rightharpoonup> string list) \<Rightarrow> (string \<Rightarrow> bool) \<Rightarrow> PullRequest list
     \<Rightarrow> PRReassignment list \<times> PRReassignmentSummary list
     \<Rightarrow> PRReassignment list \<times> PRReassignmentSummary list" where
  "planReviewerLoop r reviewersMap deactivatingSet [] acc = acc"
| "planReviewerLoop r reviewersMap deactivatingSet (pr # rest) (reassignments, summaries) =
     (case processPRReassignments r pr (lookupReviewers reviewersMap (PullRequestID pr))
             deactivatingSet of
        (prReassignments, summary) \<Rightarrow>
          planReviewerLoop r reviewersMap deactivatingSet rest
            (reassignments @ prReassignments,
             (if length (OldReviewers summary) > 0 then summaries @ [summary] else summaries)))"

definition planReviewerReassignments ::
  "MemoryRepository \<Rightarrow> PullRequest list \<Rightarrow> (string \<rightharpoonup> string list) \<Rightarrow> string list
     \<Rightarrow> PRReassignment list \<times> PRReassignmentSummary list" where
  "planReviewerReassignments r prList reviewersMap deactivatingUserIDs =
     planReviewerLoop r reviewersMap (createUserIDSet deactivatingUserIDs) prList ([], [])"

definition applyDeactivationChanges ::
  "MemoryRepository \<Rightarrow> string list \<Rightarrow> PRReassignment list \<Rightarrow> MemoryRepository" where
  "applyDeactivationChanges r validUserIDs reassignments =
     DeactivateUsers
       (if length reassignments > 0 then BulkReassignReviewers r reassignments else r)
       validUserIDs"

definition DeactivateTeamUsers ::
  "MemoryRepository \<Rightarrow> DeactivateTeamUsersRequest
     \<Rightarrow> MemoryRepository \<times> (error + DeactivateTeamUsersResponse)" where
  "DeactivateTeamUsers r req =
     (case getValidTeamUserIDsForDeactivation r req of
        Inl e \<Rightarrow> (r, Inl e)
      | Inr validUserIDs \<Rightarrow>
          (case GetOpenPRsWithReviewers r validUserIDs of
             (prList, reviewersMap) \<Rightarrow>
               (case planReviewerReassignments r prList reviewersMap validUserIDs of
                  (reassignments, summaries) \<Rightarrow>
                    (applyDeactivationChanges r validUserIDs reassignments,
                     Inr \<lparr>DeactivatedUsers = validUserIDs, ReassignedPRs = summaries\<rparr>))))"

section \<open>The user service (usecase/user_service.go)\<close>

definition SetUserActive ::
  "MemoryRepository \<Rightarrow> SetIsActiveRequest \<Rightarrow> MemoryRepository \<times> (error + User)" where
  "SetUserActive r req =
     (case GetUser r (sia_UserID req) of
        Inl e \<Rightarrow> (r, Inl e)
      | Inr found \<Rightarrow>
          (case repo_SetUserActive r (sia_UserID req) (sia_IsActive req) of
             Inl e \<Rightarrow> (r, Inl e)
           | Inr r' \<Rightarrow>
               (case GetUser r' (sia_UserID req) of
                  Inl e \<Rightarrow> (r', Inl e)
                | Inr user \<Rightarrow> (r', Inr user))))"

section \<open>Well-formed repositories\<close>

text \<open>
  A Go map holds each key once, and every write of \<^verbatim>\<open>r.users\<close> and \<^verbatim>\<open>r.prs\<close> files
  the record under its own id. On association lists these are conditions to state.
\<close>

definition users_wf :: "MemoryRepository \<Rightarrow> bool" where
  "users_wf r \<longleftrightarrow> distinct (map fst (users r)) \<and> (\<forall>(k, u) \<in> set (users r). UserID u = k)"

definition prs_wf :: "MemoryRepository \<Rightarrow> bool" where
  "prs_wf r \<longleftrightarrow> distinct (map fst (prs r)) \<and> (\<forall>(k, p) \<in> set (prs r). PullRequestID p = k)"

text \<open>The author of every stored pull request is a stored user.\<close>

definition authors_exist :: "MemoryRepository \<Rightarrow> bool" where
  "authors_exist r \<longleftrightarrow> (\<forall>(k, p) \<in> set (prs r). map_of (users r) (AuthorID p) \<noteq> None)"

text \<open>No pull request lists a reviewer twice.\<close>

definition reviewers_distinct :: "MemoryRepository \<Rightarrow> bool" where
  "reviewers_distinct r \<longleftrightarrow> (\<forall>(k, revs) \<in> set (prReviewers r). distinct revs)"

text \<open>
  The active members of team \<open>t\<close> other than user \<open>x\<close>, as a set of ids: what the spec
  calls the active teammates excluding \<open>x\<close>.
\<close>

definition activeTeammates :: "MemoryRepository \<Rightarrow> string \<Rightarrow> string \<Rightarrow> string set" where
  "activeTeammates r t x =
     {k. \<exists>u. map_of (users r) k = Some u \<and> TeamName u = t \<and> IsActive u \<and> k \<noteq> x}"

text \<open>
  The repositories the services can produce from the empty one. \<open>CreatePR\<close> is run with
  a random source that returns permutations, as \<^verbatim>\<open>rand.Perm\<close> does.
\<close>

inductive reachable :: "MemoryRepository \<Rightarrow> bool" where
  reach_new: "reachable NewMemoryRepository"
| reach_CreateTeam: "reachable r \<Longrightarrow> reachable (fst (CreateTeam r req))"
| reach_SetUserActive: "reachable r \<Longrightarrow> reachable (fst (SetUserActive r sreq))"
| reach_CreatePR:
    "reachable r \<Longrightarrow> \<forall>n. mset (Perm n) = mset [0..<n]
       \<Longrightarrow> reachable (fst (CreatePR r Perm now creq))"
| reach_MergePR: "reachable r \<Longrightarrow> reachable (fst (MergePR r now prID))"
| reach_ReassignReviewer: "reachable r \<Longrightarrow> reachable (fst (ReassignReviewer r Intn rreq))"
| reach_DeactivateTeamUsers: "reachable r \<Longrightarrow> reachable (fst (DeactivateTeamUsers r dreq))"

definition repo_inv :: "MemoryRepository \<Rightarrow> bool" where
  "repo_inv r \<longleftrightarrow> users_wf r \<and> prs_wf r \<and> authors_exist r \<and> reviewers_distinct r"

text \<open>Every reviewer a pull request lists is a stored user.\<close>

definition reviewers_exist :: "MemoryRepository \<Rightarrow> bool" where
  "reviewers_exist r \<longleftrightarrow>
     (\<forall>(k, revs) \<in> set (prReviewers r). \<forall>u \<in> set revs. map_of (users r) u \<noteq> None)"

text \<open>
  The empty string is how \<^verbatim>\<open>PRReassignment.NewReviewerID\<close> says "no replacement", so the
  planner cannot name a user whose id is empty.
\<close>

definition ids_nonempty :: "MemoryRepository \<Rightarrow> bool" where
  "ids_nonempty r \<longleftrightarrow> (\<forall>(k, u) \<in> set (users r). UserID u \<noteq> '''')"

section \<open>The replacement rule in the words of the specification\<close>





text \<open>The reassignment records that \<open>DeactivateTeamUsers\<close> computes for the valid ids and then applies.\<close>

definition deactivationPlan :: "MemoryRepository \<Rightarrow> string list \<Rightarrow> PRReassignment list" where
  "deactivationPlan r validUserIDs =
     (case GetOpenPRsWithReviewers r validUserIDs of
        (prList, reviewersMap) \<Rightarrow>
          fst (planReviewerReassignments r prList reviewersMap validUserIDs))"

section \<open>Example states\<close>

text \<open>
  A team \<open>b\<close> of four active users and one open pull request of \<open>u1\<close>, reviewed by
  \<open>u2\<close> and \<open>u3\<close>. The theorems below are instantiated on these states.
\<close>

definition exUser :: "string \<Rightarrow> string \<Rightarrow> bool \<Rightarrow> User" where
  "exUser uid team active = \<lparr>UserID = uid, Username = uid, TeamName = team, IsActive = active\<rparr>"

definition exPR :: "string \<Rightarrow> string \<Rightarrow> PRStatus \<Rightarrow> time option \<Rightarrow> PullRequest" where
  "exPR prID author st merged =
     \<lparr>PullRequestID = prID, PullRequestName = ''x'', AuthorID = author, Status = st,
      CreatedAt = Some 1, MergedAt = merged\<rparr>"

definition exRepo :: MemoryRepository where
  "exRepo =
     \<lparr>teams = [(''b'', \<lparr>team_TeamName = ''b'', Members = []\<rparr>)],
      users = [(''u1'', exUser ''u1'' ''b'' True), (''u2'', exUser ''u2'' ''b'' True),
               (''u3'', exUser ''u3'' ''b'' True), (''u4'', exUser ''u4'' ''b'' True)],
      prs = [(''p1'', exPR ''p1'' ''u1'' PRStatusOpen None)],
      prReviewers = [(''p1'', [''u2'', ''u3''])]\<rparr>"

text \<open>The same team with \<open>u4\<close> inactive: nobody can replace a reviewer of \<open>p1\<close>.\<close>

definition exRepoNoCandidate :: MemoryRepository where
  "exRepoNoCandidate =
     \<lparr>teams = [(''b'', \<lparr>team_TeamName = ''b'', Members = []\<rparr>)],
      users = [(''u1'', exUser ''u1'' ''b'' True), (''u2'', exUser ''u2'' ''b'' True),
               (''u3'', exUser ''u3'' ''b'' True), (''u4'', exUser ''u4'' ''b'' False)],
      prs = [(''p1'', exPR ''p1'' ''u1'' PRStatusOpen None)],
      prReviewers = [(''p1'', [''u2'', ''u3''])]\<rparr>"

text \<open>The same team with \<open>p1\<close> merged at time 5.\<close>

definition exRepoMerged :: MemoryRepository where
  "exRepoMerged =
     \<lparr>teams = [(''b'', \<lparr>team_TeamName = ''b'', Members = []\<rparr>)],
      users = [(''u1'', exUser ''u1'' ''b'' True), (''u2'', exUser ''u2'' ''b'' True),
               (''u3'', exUser ''u3'' ''b'' True), (''u4'', exUser ''u4'' ''b'' True)],
      prs = [(''p1'', exPR ''p1'' ''u1'' PRStatusMerged (Some 5))],
      prReviewers = [(''p1'', [''u2'', ''u3''])]\<rparr>"

text \<open>A request that creates team \<open>f\<close> with a member whose id \<open>u1\<close> is already in team \<open>b\<close>.\<close>

definition exOverwriteReq :: CreateTeamRequest where
  "exOverwriteReq =
     \<lparr>ctr_TeamName = ''f'',
      ctr_Members = [\<lparr>tm_UserID = ''u1'', tm_Username = ''n'', tm_IsActive = False\<rparr>]\<rparr>"

definition exDeactivate :: "string \<Rightarrow> string list \<Rightarrow> DeactivateTeamUsersRequest" where
  "exDeactivate team ids = \<lparr>dtu_TeamName = team, UserIDs = ids\<rparr>"

definition exReassign :: "string \<Rightarrow> string \<Rightarrow> ReassignRequest" where
  "exReassign prID old = \<lparr>rr_PullRequestID = prID, OldUserID = old\<rparr>"

definition exCreate :: CreatePRRequest where
  "exCreate = \<lparr>cpr_PullRequestID = ''p2'', cpr_PullRequestName = ''y'', cpr_AuthorID = ''u1''\<rparr>"

text \<open>A random source that always draws the reversed order and the index 0.\<close>

definition exPerm :: "nat \<Rightarrow> nat list" where
  "exPerm n = rev [0..<n]"

definition exIntn :: "nat \<Rightarrow> nat" where
  "exIntn n = 0"

text \<open>What the reassignment of \<open>u2\<close> on \<open>p1\<close> returns when the draw is 0: \<open>u4\<close> steps in.\<close>

definition exReassigned :: PullRequestResponse where
  "exReassigned = prResponse (exPR ''p1'' ''u1'' PRStatusOpen None) [''u3'', ''u4'']"

text \<open>What deactivating \<open>u2\<close> and \<open>u3\<close> in team \<open>b\<close> answers, and the plan it applies.\<close>

definition exDeactivated :: DeactivateTeamUsersResponse where
  "exDeactivated =
     \<lparr>DeactivatedUsers = [''u2'', ''u3''],
      ReassignedPRs = [\<lparr>sum_PullRequestID = ''p1'', OldReviewers = [''u2'', ''u3''],
                        NewReviewers = [''u4'']\<rparr>]\<rparr>"

definition exPlan :: "PRReassignment list" where
  "exPlan =
     [\<lparr>ra_PullRequestID = ''p1'', OldReviewerID = ''u2'', NewReviewerID = ''u4''\<rparr>,
      \<lparr>ra_PullRequestID = ''p1'', OldReviewerID = ''u3'', NewReviewerID = ''''\<rparr>]"

text \<open>The team with \<open>u2\<close> and \<open>u3\<close> already inactive and still reviewing \<open>p1\<close>.\<close>

definition exRepoInactive :: MemoryRepository where
  "exRepoInactive =
     \<lparr>teams = [(''b'', \<lparr>team_TeamName = ''b'', Members = []\<rparr>)],
      users = [(''u1'', exUser ''u1'' ''b'' True), (''u2'', exUser ''u2'' ''b'' False),
               (''u3'', exUser ''u3'' ''b'' False), (''u4'', exUser ''u4'' ''b'' True)],
      prs = [(''p1'', exPR ''p1'' ''u1'' PRStatusOpen None)],
      prReviewers = [(''p1'', [''u2'', ''u3''])]\<rparr>"

section \<open>Basic facts about the repository\<close>

lemmas error_defs =
  NewAppError_def ErrTeamAlreadyExists_def ErrPRAlreadyExists_def ErrPRMerged_def
  ErrReviewerNotAssigned_def ErrNoActiveCandidate_def ErrTeamNotFound_def
  ErrUserNotFound_def ErrPRNotFound_def

lemmas example_defs = exUser_def exPR_def exRepo_def exRepoNoCandidate_def exRepoMerged_def
  NewMemoryRepository_def exOverwriteReq_def exDeactivate_def exReassign_def exCreate_def exRepoInactive_def

lemma map_of_update_same [simp]: "map_of (AList.update k v al) k = Some v"
  by (simp add: update_conv')

lemma map_of_update_other [simp]: "k' \<noteq> k \<Longrightarrow> map_of (AList.update k v al) k' = map_of al k'"
  by (simp add: update_conv')

lemma createUserIDSet_fold:
  "fold (\<lambda>userID s. s(userID := True)) userIDs s0 x \<longleftrightarrow> s0 x \<or> x \<in> set userIDs"
  by (induction userIDs arbitrary: s0) auto

lemma createUserIDSet_eq: "createUserIDSet userIDs = (\<lambda>x. x \<in> set userIDs)"
  by (simp add: createUserIDSet_def createUserIDSet_fold fun_eq_iff)

lemma IsReviewerAssigned_iff: "IsReviewerAssigned r prID userID \<longleftrightarrow> userID \<in> set (reviewersAt r prID)"
  by (simp add: IsReviewerAssigned_def reviewersAt_def split: option.splits)

text \<open>Adding and removing a reviewer touch the reviewer lists only.\<close>

lemma RemoveReviewer_fields [simp]:
  "prs (RemoveReviewer r prID userID) = prs r"
  "users (RemoveReviewer r prID userID) = users r"
  "teams (RemoveReviewer r prID userID) = teams r"
  by (simp_all add: RemoveReviewer_def)

lemma AddReviewer_fields [simp]:
  "prs (AddReviewer r prID userID) = prs r"
  "users (AddReviewer r prID userID) = users r"
  "teams (AddReviewer r prID userID) = teams r"
  by (simp_all add: AddReviewer_def)

lemma reviewersAt_AddReviewer [simp]:
  "reviewersAt (AddReviewer r prID userID) prID = reviewersAt r prID @ [userID]"
  by (simp add: AddReviewer_def reviewersAt_def)

lemma reviewersAt_RemoveReviewer [simp]:
  "reviewersAt (RemoveReviewer r prID userID) prID = remove1 userID (reviewersAt r prID)"
  by (simp add: RemoveReviewer_def reviewersAt_def remove1_idem)


lemma exRepoInactive_wf:
  "users_wf exRepoInactive" "prs_wf exRepoInactive" "authors_exist exRepoInactive"
  by (simp_all add: users_wf_def prs_wf_def authors_exist_def example_defs)

lemma example_plan:
  assumes "users r = [(''u1'', exUser ''u1'' ''b'' True), (''u2'', exUser ''u2'' ''b'' a2),
                      (''u3'', exUser ''u3'' ''b'' a3), (''u4'', exUser ''u4'' ''b'' True)]"
    and "prs r = [(''p1'', exPR ''p1'' ''u1'' PRStatusOpen None)]"
    and "prReviewers r = [(''p1'', [''u2'', ''u3''])]"
    and "teams r = [(''b'', \<lparr>team_TeamName = ''b'', Members = []\<rparr>)]"
  shows "snd (DeactivateTeamUsers r (exDeactivate ''b'' [''u2'', ''u3''])) = Inr exDeactivated"
    and "deactivationPlan r [''u2'', ''u3''] = exPlan"
proof -
  let ?req = "exDeactivate ''b'' [''u2'', ''u3'']"
  have valid: "getValidTeamUserIDsForDeactivation r ?req = Inr [''u2'', ''u3'']"
    by (simp add: getValidTeamUserIDsForDeactivation_def repo_GetTeam_def filterValidTeamUsers_def
          GetUser_def assms exUser_def exDeactivate_def)
  have "GetOpenPRsWithReviewers r [''u2'', ''u3'']
          = ([exPR ''p1'' ''u1'' PRStatusOpen None], [''p1'' \<mapsto> [''u2'', ''u3'']])"
    by (simp add: GetOpenPRsWithReviewers_def collectOpenPR_def reviewersAt_def
          createUserIDSet_eq assms exPR_def)
  moreover have
    "planReviewerReassignments r [exPR ''p1'' ''u1'' PRStatusOpen None]
        [''p1'' \<mapsto> [''u2'', ''u3'']] [''u2'', ''u3'']
      = (exPlan,
         [\<lparr>sum_PullRequestID = ''p1'', OldReviewers = [''u2'', ''u3''], NewReviewers = [''u4'']\<rparr>])"
    by (cases a2; cases a3)
       (simp_all add: planReviewerReassignments_def processPRReassignments_def GetUser_def
          lookupReviewers_def findReviewerReplacement_def GetActiveTeamMembers_def
          isValidReplacementCandidate_def createUserIDSet_eq Let_def assms exUser_def exPR_def
          exPlan_def)
  ultimately show "snd (DeactivateTeamUsers r ?req) = Inr exDeactivated"
    and "deactivationPlan r [''u2'', ''u3''] = exPlan"
    by (simp_all add: DeactivateTeamUsers_def valid deactivationPlan_def exDeactivated_def)
qed

section \<open>Reviewers of a new pull request\<close>

lemma users_wf_key: "users_wf r \<Longrightarrow> (k, u) \<in> set (users r) \<Longrightarrow> UserID u = k"
  unfolding users_wf_def by blast

lemma users_wf_lookup: "users_wf r \<Longrightarrow> map_of (users r) k = Some u \<longleftrightarrow> (k, u) \<in> set (users r)"
  unfolding users_wf_def by simp

lemma GetActiveTeamMembers_ids:
  assumes "users_wf r"
  shows "map UserID (GetActiveTeamMembers r t x)
           = map fst (filter (\<lambda>(k, u). TeamName u = t \<and> IsActive u \<and> UserID u \<noteq> x) (users r))"
  unfolding GetActiveTeamMembers_def map_map
proof (rule map_cong [OF refl])
  fix p
  assume "p \<in> set (filter (\<lambda>(k, u). TeamName u = t \<and> IsActive u \<and> UserID u \<noteq> x) (users r))"
  then have "(fst p, snd p) \<in> set (users r)"
    by simp
  from users_wf_key [OF assms this] show "(UserID \<circ> snd) p = fst p"
    by simp
qed

lemma GetActiveTeamMembers_distinct:
  "users_wf r \<Longrightarrow> distinct (map UserID (GetActiveTeamMembers r t x))"
  by (simp add: GetActiveTeamMembers_ids distinct_map_filter users_wf_def)

lemma GetActiveTeamMembers_set:
  assumes "users_wf r"
  shows "set (map UserID (GetActiveTeamMembers r t x)) = activeTeammates r t x"
proof (intro set_eqI iffI)
  fix k
  assume "k \<in> set (map UserID (GetActiveTeamMembers r t x))"
  then obtain u where u: "(k, u) \<in> set (users r)" "TeamName u = t" "IsActive u" "UserID u \<noteq> x"
    unfolding GetActiveTeamMembers_ids [OF assms] by auto
  with users_wf_key [OF assms u(1)] users_wf_lookup [OF assms, of k u]
  show "k \<in> activeTeammates r t x"
    unfolding activeTeammates_def by blast
next
  fix k
  assume "k \<in> activeTeammates r t x"
  then obtain u where u: "map_of (users r) k = Some u" "TeamName u = t" "IsActive u" "k \<noteq> x"
    unfolding activeTeammates_def by blast
  from u(1) have mem: "(k, u) \<in> set (users r)"
    by (simp add: users_wf_lookup [OF assms])
  with users_wf_key [OF assms mem] u
  have "(k, u) \<in> set (filter (\<lambda>(k, u). TeamName u = t \<and> IsActive u \<and> UserID u \<noteq> x) (users r))"
    by simp
  then have "fst (k, u) \<in> fst ` set (filter (\<lambda>(k, u). TeamName u = t \<and> IsActive u \<and> UserID u \<noteq> x) (users r))"
    by (rule imageI)
  then show "k \<in> set (map UserID (GetActiveTeamMembers r t x))"
    unfolding GetActiveTeamMembers_ids [OF assms] by simp
qed

lemma GetActiveTeamMembers_length:
  assumes "users_wf r"
  shows "length (GetActiveTeamMembers r t x) = card (activeTeammates r t x)"
proof -
  have "card (activeTeammates r t x) = length (map UserID (GetActiveTeamMembers r t x))"
    unfolding GetActiveTeamMembers_set [OF assms, symmetric]
    by (rule distinct_card) (rule GetActiveTeamMembers_distinct [OF assms])
  then show ?thesis by simp
qed

lemma pickByPerm_in_range:
  assumes "\<forall>i \<in> set idxs. i < length perm" and "\<forall>j \<in> set perm. j < length candidates"
  shows "pickByPerm candidates perm idxs = Inr (map (\<lambda>i. candidates ! (perm ! i)) idxs)"
  using assms by (induction idxs) (simp_all add: indexAt_def)

lemma selectReviewers_result:
  assumes perm: "mset (Perm (length candidates)) = mset [0..<length candidates]"
    and ids: "distinct (map UserID candidates)"
    and sel: "selectReviewers Perm candidates 2 = Inr reviewers"
  shows "length reviewers = min 2 (length candidates)
       \<and> distinct (map UserID reviewers) \<and> set reviewers \<subseteq> set candidates"
proof (cases "length candidates \<le> 2")
  case True
  with sel ids show ?thesis
    by (auto simp: selectReviewers_def split: if_splits)
next
  case False
  let ?p = "Perm (length candidates)"
  have len: "length ?p = length candidates"
    using mset_eq_length [OF perm] by simp
  have dist: "distinct ?p"
    using mset_eq_imp_distinct_iff [OF perm] by simp
  have rng: "\<forall>j \<in> set ?p. j < length candidates"
    using mset_eq_setD [OF perm] by simp
  have two: "[0..<2] = [0, Suc 0]"
    by (simp add: upt_rec)
  have "pickByPerm candidates ?p [0, Suc 0] = Inr (map (\<lambda>i. candidates ! (?p ! i)) [0, Suc 0])"
    using False len rng by (intro pickByPerm_in_range) auto
  with sel False have reviewers: "reviewers = [candidates ! (?p ! 0), candidates ! (?p ! Suc 0)]"
    unfolding selectReviewers_def two by (simp del: pickByPerm.simps split: if_splits)
  have nonempty: "candidates \<noteq> []"
    using False by auto
  have l1: "Suc 0 < length ?p"
    using False len by simp
  then have l0: "0 < length ?p"
    by (rule Suc_lessD)
  have ne: "?p ! 0 \<noteq> ?p ! Suc 0"
    using nth_eq_iff_index_eq [OF dist l0 l1] by simp
  have b0: "?p ! 0 < length candidates" and b1: "?p ! Suc 0 < length candidates"
    using rng nth_mem [OF l0] nth_mem [OF l1] by blast+
  have "map UserID candidates ! (?p ! 0) \<noteq> map UserID candidates ! (?p ! Suc 0)"
    using nth_eq_iff_index_eq [OF ids, of "?p ! 0" "?p ! Suc 0"] ne b0 b1 by simp
  then have "UserID (candidates ! (?p ! 0)) \<noteq> UserID (candidates ! (?p ! Suc 0))"
    using b0 b1 by simp
  with reviewers b0 b1 False show ?thesis
    by simp
qed

text \<open>
  C1. For every successful \<open>CreatePR\<close> on a well-formed repository, with \<open>Perm n\<close> a
  permutation of \<open>0, \<dots>, n - 1\<close> as \<^verbatim>\<open>rand.Perm\<close> promises, the author is a stored user
  and the returned reviewers are as many as the smaller of 2 and the number of active
  members of the author's team other than the author; they are such members, they do not
  include the author, no id occurs twice, and they are what the repository stores for
  the new pull request.
\<close>

theorem CreatePR_reviewers:
  assumes wf: "users_wf r"
    and perm: "\<forall>n. mset (Perm n) = mset [0..<n]"
    and ok: "CreatePR r Perm now req = (r', Inr resp)"
  shows "\<exists>author. map_of (users r) (cpr_AuthorID req) = Some author
       \<and> length (AssignedReviewers resp)
           = min 2 (card (activeTeammates r (TeamName author) (cpr_AuthorID req)))
       \<and> set (AssignedReviewers resp) \<subseteq> activeTeammates r (TeamName author) (cpr_AuthorID req)
       \<and> cpr_AuthorID req \<notin> set (AssignedReviewers resp)
       \<and> distinct (AssignedReviewers resp)
       \<and> reviewersAt r' (cpr_PullRequestID req) = AssignedReviewers resp"
proof -
  from ok obtain author reviewers where
        author: "map_of (users r) (cpr_AuthorID req) = Some author"
    and sel: "selectReviewers Perm
                (GetActiveTeamMembers r (TeamName author) (cpr_AuthorID req)) 2 = Inr reviewers"
    and resp: "AssignedReviewers resp = map UserID reviewers"
    and stored: "reviewersAt r' (cpr_PullRequestID req) = map UserID reviewers"
    by (auto simp: CreatePR_def GetUser_def repo_CreatePR_def prResponse_def reviewersAt_def
          Let_def split: if_splits option.splits sum.splits)
  let ?cands = "GetActiveTeamMembers r (TeamName author) (cpr_AuthorID req)"
  let ?mates = "activeTeammates r (TeamName author) (cpr_AuthorID req)"
  from selectReviewers_result [OF perm [rule_format] GetActiveTeamMembers_distinct [OF wf] sel]
  have len: "length reviewers = min 2 (length ?cands)"
    and dist: "distinct (map UserID reviewers)"
    and sub: "set reviewers \<subseteq> set ?cands"
    by auto
  from sub have sub': "set (map UserID reviewers) \<subseteq> ?mates"
    unfolding GetActiveTeamMembers_set [OF wf, symmetric] by auto
  have "cpr_AuthorID req \<notin> ?mates"
    by (simp add: activeTeammates_def)
  with sub' have "cpr_AuthorID req \<notin> set (map UserID reviewers)"
    by blast
  with author len dist sub' resp stored show ?thesis
    by (simp add: GetActiveTeamMembers_length [OF wf])
qed

theorem CreatePR_reviewers_witness:
  "users_wf exRepo
 \<and> (\<exists>r'. CreatePR exRepo exPerm 7 exCreate
            = (r', Inr (prResponse (exPR ''p2'' ''u1'' PRStatusOpen None
                                     \<lparr>PullRequestName := ''y'', CreatedAt := Some 7\<rparr>)
                                   [''u4'', ''u3''])))
 \<and> min 2 (card (activeTeammates exRepo ''b'' ''u1'')) = 2
 \<and> set [''u4'', ''u3''] \<subseteq> activeTeammates exRepo ''b'' ''u1''
 \<and> ''u1'' \<notin> set [''u4'', ''u3'']"
proof -
  let ?resp = "prResponse (exPR ''p2'' ''u1'' PRStatusOpen None
                             \<lparr>PullRequestName := ''y'', CreatedAt := Some 7\<rparr>) [''u4'', ''u3'']"
  have wf: "users_wf exRepo"
    by (simp add: users_wf_def example_defs)
  have perm: "\<forall>n. mset (exPerm n) = mset [0..<n]"
    by (simp add: exPerm_def)
  have cands: "GetActiveTeamMembers exRepo ''b'' ''u1''
                 = [exUser ''u2'' ''b'' True, exUser ''u3'' ''b'' True, exUser ''u4'' ''b'' True]"
    by (simp add: GetActiveTeamMembers_def example_defs)
  have three: "[0..<3] = [0, 1, 2]"
    by (simp add: upt_rec)
  have sel: "selectReviewers exPerm (GetActiveTeamMembers exRepo ''b'' ''u1'') 2
               = Inr [exUser ''u4'' ''b'' True, exUser ''u3'' ''b'' True]"
    unfolding cands by (simp add: selectReviewers_def exPerm_def three upt_rec indexAt_def)
  have run: "snd (CreatePR exRepo exPerm 7 exCreate) = Inr ?resp"
    using sel
    by (simp add: CreatePR_def PRExists_def GetUser_def repo_CreatePR_def example_defs
          prResponse_def Let_def)
  then have ok: "CreatePR exRepo exPerm 7 exCreate = (fst (CreatePR exRepo exPerm 7 exCreate), Inr ?resp)"
    by (simp add: prod_eq_iff)
  have author: "map_of (users exRepo) (cpr_AuthorID exCreate) = Some (exUser ''u1'' ''b'' True)"
    by (simp add: example_defs)
  from CreatePR_reviewers [OF wf perm ok] author
  have "length (AssignedReviewers ?resp) = min 2 (card (activeTeammates exRepo ''b'' ''u1''))
      \<and> set (AssignedReviewers ?resp) \<subseteq> activeTeammates exRepo ''b'' ''u1''
      \<and> ''u1'' \<notin> set (AssignedReviewers ?resp)"
    by (auto simp: exUser_def exCreate_def)
  with wf ok show ?thesis
    by (auto simp: prResponse_def)
qed

section \<open>Planning the replacements of a mass deactivation\<close>

lemma keepStaying_result:
  "keepStaying deact cur (assigned, news)
     = (\<lambda>x. assigned x \<or> (x \<in> set cur \<and> \<not> deact x), news @ filter (\<lambda>x. \<not> deact x) cur)"
proof (induction cur arbitrary: assigned news)
  case Nil
  show ?case by simp
next
  case (Cons a cur)
  show ?case
    by (simp add: Cons.IH) (auto simp: fun_eq_iff)
qed


lemma firstValidCandidate_cases:
  "firstValidCandidate cands a assigned deact = ''''
   \<or> (\<not> deact (firstValidCandidate cands a assigned deact)
      \<and> \<not> assigned (firstValidCandidate cands a assigned deact)
      \<and> firstValidCandidate cands a assigned deact \<noteq> a)"
  by (induction cands) (simp_all add: isValidReplacementCandidate_def)

lemma findReviewerReplacement_cases:
  "findReviewerReplacement r x author assigned deact = ''''
   \<or> (\<not> deact (findReviewerReplacement r x author assigned deact)
      \<and> \<not> assigned (findReviewerReplacement r x author assigned deact))"
  using firstValidCandidate_cases
  by (auto simp: findReviewerReplacement_def split: sum.splits)







lemma planReviewerLoop_records:
  "fst (planReviewerLoop r reviewersMap deact prList (ras, sums))
     = ras @ concat (map (\<lambda>pr. fst (processPRReassignments r pr
                                      (lookupReviewers reviewersMap (PullRequestID pr)) deact))
                         prList)"
  by (induction prList arbitrary: ras sums) (simp_all split: prod.splits)

text \<open>The open pull requests that have a reviewer among the given ids.\<close>

lemma collectOpenPR_step:
  "collectOpenPR r S (k, p) (acc, m)
     = (if Status p = PRStatusOpen \<and> (\<exists>x \<in> set (reviewersAt r k). S x)
        then (acc @ [p], m(k \<mapsto> reviewersAt r k)) else (acc, m))"
  by (simp add: collectOpenPR_def list_ex_iff)

lemma collectOpenPR_fold_fst:
  "fst (fold (collectOpenPR r S) ps (acc, m))
     = acc @ map snd (filter (\<lambda>(k, p). Status p = PRStatusOpen
                                \<and> (\<exists>x \<in> set (reviewersAt r k). S x)) ps)"
proof (induction ps arbitrary: acc m)
  case Nil
  show ?case by simp
next
  case (Cons q ps)
  obtain k p where q: "q = (k, p)" by (cases q)
  show ?case
    unfolding q fold_Cons comp_apply collectOpenPR_step
    by (simp add: Cons.IH)
qed

lemma collectOpenPR_fold_snd:
  "snd (fold (collectOpenPR r S) ps (acc, m)) k
     = (if \<exists>p. (k, p) \<in> set ps \<and> Status p = PRStatusOpen \<and> (\<exists>x \<in> set (reviewersAt r k). S x)
        then Some (reviewersAt r k) else m k)"
proof (induction ps arbitrary: acc m)
  case Nil
  show ?case by simp
next
  case (Cons q ps)
  obtain k' p where q: "q = (k', p)" by (cases q)
  show ?case
    unfolding q fold_Cons comp_apply collectOpenPR_step
    by (auto simp: Cons.IH)
qed

lemma GetOpenPRsWithReviewers_prs:
  "fst (GetOpenPRsWithReviewers r ids)
     = map snd (filter (\<lambda>(k, p). Status p = PRStatusOpen
                          \<and> (\<exists>x \<in> set (reviewersAt r k). x \<in> set ids)) (prs r))"
  by (simp add: GetOpenPRsWithReviewers_def collectOpenPR_fold_fst createUserIDSet_eq
        prod_eq_iff [of "([], Map.empty)", symmetric])

lemma GetOpenPRsWithReviewers_reviewers:
  assumes "(k, p) \<in> set (prs r)" and "Status p = PRStatusOpen"
    and "\<exists>x \<in> set (reviewersAt r k). x \<in> set ids"
  shows "lookupReviewers (snd (GetOpenPRsWithReviewers r ids)) k = reviewersAt r k"
  using assms
  by (auto simp: GetOpenPRsWithReviewers_def createUserIDSet_eq lookupReviewers_def
        collectOpenPR_fold_snd)

lemma deactivationPlan_processed:
  assumes "prs_wf r"
  shows "deactivationPlan r ids
     = concat (map (\<lambda>(k, p). fst (processPRReassignments r p (reviewersAt r k) (\<lambda>x. x \<in> set ids)))
                 (filter (\<lambda>(k, p). Status p = PRStatusOpen
                            \<and> (\<exists>x \<in> set (reviewersAt r k). x \<in> set ids)) (prs r)))"
proof -
  let ?A = "\<lambda>(k, p). Status p = PRStatusOpen \<and> (\<exists>x \<in> set (reviewersAt r k). x \<in> set ids)"
  let ?rm = "snd (GetOpenPRsWithReviewers r ids)"
  have "deactivationPlan r ids
          = concat (map (\<lambda>pr. fst (processPRReassignments r pr
                                      (lookupReviewers ?rm (PullRequestID pr)) (\<lambda>x. x \<in> set ids)))
                      (map snd (filter ?A (prs r))))"
    by (simp add: deactivationPlan_def planReviewerReassignments_def planReviewerLoop_records
          GetOpenPRsWithReviewers_prs [symmetric] createUserIDSet_eq split: prod.splits)
  also have "map (\<lambda>pr. fst (processPRReassignments r pr
                            (lookupReviewers ?rm (PullRequestID pr)) (\<lambda>x. x \<in> set ids)))
                 (map snd (filter ?A (prs r)))
           = map (\<lambda>(k, p). fst (processPRReassignments r p (reviewersAt r k) (\<lambda>x. x \<in> set ids)))
                 (filter ?A (prs r))"
    unfolding map_map
  proof (rule map_cong [OF refl])
    fix q
    assume q_in: "q \<in> set (filter ?A (prs r))"
    obtain k p where q: "q = (k, p)" by (cases q)
    with q_in have mem: "(k, p) \<in> set (prs r)" and op: "Status p = PRStatusOpen"
      and aff: "\<exists>x \<in> set (reviewersAt r k). x \<in> set ids"
      by auto
    from assms mem have "PullRequestID p = k"
      by (auto simp: prs_wf_def)
    with GetOpenPRsWithReviewers_reviewers [OF mem op aff] q
    show "((\<lambda>pr. fst (processPRReassignments r pr
                      (lookupReviewers ?rm (PullRequestID pr)) (\<lambda>x. x \<in> set ids))) \<circ> snd) q
            = (case q of (k, p) \<Rightarrow>
                 fst (processPRReassignments r p (reviewersAt r k) (\<lambda>x. x \<in> set ids)))"
      by simp
  qed
  finally show ?thesis .
qed

lemma BulkReassignReviewers_Nil [simp]: "BulkReassignReviewers r [] = r"
  by (simp add: BulkReassignReviewers_def)

lemma DeactivateTeamUsers_success:
  assumes "DeactivateTeamUsers r req = (r', Inr resp)"
  shows "DeactivatedUsers resp = filterValidTeamUsers r req
       \<and> filterValidTeamUsers r req \<noteq> []
       \<and> r' = DeactivateUsers
                 (BulkReassignReviewers r (deactivationPlan r (filterValidTeamUsers r req)))
                 (filterValidTeamUsers r req)"
proof -
  from assms have valid: "getValidTeamUserIDsForDeactivation r req = Inr (filterValidTeamUsers r req)"
    and ne: "filterValidTeamUsers r req \<noteq> []"
    by (auto simp: DeactivateTeamUsers_def getValidTeamUserIDsForDeactivation_def Let_def
          split: sum.splits if_splits)
  have apply_plan: "applyDeactivationChanges r ids plan
                      = DeactivateUsers (BulkReassignReviewers r plan) ids" for ids plan
    by (cases plan) (simp_all add: applyDeactivationChanges_def)
  from assms show ?thesis
    unfolding DeactivateTeamUsers_def valid
    by (auto simp: apply_plan deactivationPlan_def ne split: prod.splits)
qed

lemma reassignOne_reviewers:
  "reviewersAt (reassignOne ra r) k
     = (if ra_PullRequestID ra = k
        then filter (\<lambda>x. x \<noteq> OldReviewerID ra) (reviewersAt r k)
               @ (if NewReviewerID ra \<noteq> '''' then [NewReviewerID ra] else [])
        else reviewersAt r k)"
  by (simp add: reassignOne_def reviewersAt_def Let_def)



section \<open>What a mass deactivation leaves behind\<close>

text \<open>The records of one pull request, read off the code alone.\<close>

lemma replaceRemoved_records:
  "\<exists>recs olds' news' assigned'.
      replaceRemoved r pr author deact cur (ras, olds, news, assigned)
        = (ras @ recs, olds', news', assigned')
    \<and> map OldReviewerID recs = filter deact cur
    \<and> (\<forall>ra \<in> set recs. ra_PullRequestID ra = PullRequestID pr
           \<and> (NewReviewerID ra = '''' \<or> \<not> deact (NewReviewerID ra))
           \<and> (NewReviewerID ra = '''' \<or> \<not> assigned (NewReviewerID ra)))
    \<and> distinct (filter (\<lambda>n. n \<noteq> '''') (map NewReviewerID recs))"
proof (induction cur arbitrary: ras olds news assigned)
  case Nil
  show ?case by simp
next
  case (Cons x cur)
  show ?case
  proof (cases "deact x")
    case False
    with Cons.IH [of ras olds news assigned] show ?thesis
      by simp
  next
    case True
    let ?new = "findReviewerReplacement r x author assigned deact"
    let ?rec = "\<lparr>ra_PullRequestID = PullRequestID pr, OldReviewerID = x, NewReviewerID = ?new\<rparr>"
    let ?news = "if ?new \<noteq> '''' then news @ [?new] else news"
    let ?assigned = "if ?new \<noteq> '''' then assigned(?new := True) else assigned"
    from Cons.IH [of "ras @ [?rec]" "olds @ [x]" ?news ?assigned]
    obtain recs olds' news' assigned' where
          step: "replaceRemoved r pr author deact cur (ras @ [?rec], olds @ [x], ?news, ?assigned)
                   = ((ras @ [?rec]) @ recs, olds', news', assigned')"
      and olds: "map OldReviewerID recs = filter deact cur"
      and props: "\<forall>ra \<in> set recs. ra_PullRequestID ra = PullRequestID pr
                     \<and> (NewReviewerID ra = '''' \<or> \<not> deact (NewReviewerID ra))
                     \<and> (NewReviewerID ra = '''' \<or> \<not> ?assigned (NewReviewerID ra))"
      and dist: "distinct (filter (\<lambda>n. n \<noteq> '''') (map NewReviewerID recs))"
      by blast
    note new = findReviewerReplacement_cases [of r x author assigned deact]
    have "replaceRemoved r pr author deact (x # cur) (ras, olds, news, assigned)
            = (ras @ (?rec # recs), olds', news', assigned')"
      using True step by (simp add: Let_def)
    moreover have "map OldReviewerID (?rec # recs) = filter deact (x # cur)"
      using True olds by simp
    moreover have "\<forall>ra \<in> set (?rec # recs). ra_PullRequestID ra = PullRequestID pr
                     \<and> (NewReviewerID ra = '''' \<or> \<not> deact (NewReviewerID ra))
                     \<and> (NewReviewerID ra = '''' \<or> \<not> assigned (NewReviewerID ra))"
      using props new by (auto split: if_splits)
    moreover have "distinct (filter (\<lambda>n. n \<noteq> '''') (map NewReviewerID (?rec # recs)))"
    proof (cases "?new = ''''")
      case True
      with dist show ?thesis by simp
    next
      case False
      with props have "?new \<notin> set (filter (\<lambda>n. n \<noteq> '''') (map NewReviewerID recs))"
        by auto
      with dist False show ?thesis by simp
    qed
    ultimately show ?thesis
      by blast
  qed
qed

lemma processPRReassignments_records:
  "\<forall>ra \<in> set (fst (processPRReassignments r pr cur deact)).
      ra_PullRequestID ra = PullRequestID pr
    \<and> (NewReviewerID ra = '''' \<or> \<not> deact (NewReviewerID ra))"
proof (cases "GetUser r (AuthorID pr)")
  case (Inl e)
  then show ?thesis
    by (simp add: processPRReassignments_def)
next
  case (Inr author)
  obtain assigned news where ks: "keepStaying deact cur (\<lambda>_. False, []) = (assigned, news)"
    by (cases "keepStaying deact cur (\<lambda>_. False, [])")
  from replaceRemoved_records [of r pr author deact cur "[]" "[]" news assigned]
  obtain recs olds' news' assigned' where
        "replaceRemoved r pr author deact cur ([], [], news, assigned)
           = ([] @ recs, olds', news', assigned')"
    and "\<forall>ra \<in> set recs. ra_PullRequestID ra = PullRequestID pr
            \<and> (NewReviewerID ra = '''' \<or> \<not> deact (NewReviewerID ra))"
    by blast
  with Inr ks show ?thesis
    by (simp add: processPRReassignments_def)
qed

lemma processPRReassignments_olds:
  assumes "map_of (users r) (AuthorID pr) = Some author"
  shows "map OldReviewerID (fst (processPRReassignments r pr cur deact)) = filter deact cur"
proof -
  obtain assigned news where ks: "keepStaying deact cur (\<lambda>_. False, []) = (assigned, news)"
    by (cases "keepStaying deact cur (\<lambda>_. False, [])")
  from replaceRemoved_records [of r pr author deact cur "[]" "[]" news assigned]
  obtain recs olds' news' assigned' where
        "replaceRemoved r pr author deact cur ([], [], news, assigned)
           = ([] @ recs, olds', news', assigned')"
    and "map OldReviewerID recs = filter deact cur"
    by blast
  with assms ks show ?thesis
    by (simp add: processPRReassignments_def GetUser_def)
qed

text \<open>Reading the plan one pull request at a time.\<close>

lemma concat_other_keys:
  assumes "k \<notin> fst ` set xs"
    and "\<forall>(k', p') \<in> set xs. \<forall>ra \<in> set (g k' p'). ra_PullRequestID ra = k'"
  shows "concat (map (\<lambda>(k', p'). filter (\<lambda>ra. ra_PullRequestID ra = k) (g k' p')) xs) = []"
proof -
  have "filter (\<lambda>ra. ra_PullRequestID ra = k) (g k' p') = []" if "(k', p') \<in> set xs" for k' p'
  proof -
    from that assms(1) have "k' \<noteq> k"
      by (auto simp: image_iff)
    moreover from that assms(2) have "\<forall>ra \<in> set (g k' p'). ra_PullRequestID ra = k'"
      by blast
    ultimately show ?thesis
      by (auto simp: filter_empty_conv)
  qed
  then show ?thesis
    by auto
qed

lemma concat_one_key:
  assumes "distinct (map fst xs)" and "(k, p) \<in> set xs"
    and "\<forall>(k', p') \<in> set xs. \<forall>ra \<in> set (g k' p'). ra_PullRequestID ra = k'"
  shows "concat (map (\<lambda>(k', p'). filter (\<lambda>ra. ra_PullRequestID ra = k) (g k' p')) xs) = g k p"
  using assms
proof (induction xs)
  case Nil
  then show ?case by simp
next
  case (Cons q xs)
  obtain k' p' where q: "q = (k', p')" by (cases q)
  from Cons.prems(3) have own: "\<forall>(k', p') \<in> set xs. \<forall>ra \<in> set (g k' p'). ra_PullRequestID ra = k'"
    and own_q: "\<forall>ra \<in> set (g k' p'). ra_PullRequestID ra = k'"
    by (simp_all add: q)
  show ?case
  proof (cases "q = (k, p)")
    case True
    with Cons.prems(1) have "k \<notin> fst ` set xs" by auto
    from concat_other_keys [OF this own]
    have "concat (map (\<lambda>(k', p'). filter (\<lambda>ra. ra_PullRequestID ra = k) (g k' p')) xs) = []" .
    moreover have "filter (\<lambda>ra. ra_PullRequestID ra = k) (g k p) = g k p"
      using own_q True q by (simp add: filter_id_conv)
    ultimately show ?thesis
      using True by simp
  next
    case False
    with Cons.prems have mem: "(k, p) \<in> set xs" and dist: "distinct (map fst xs)"
      by auto
    from Cons.prems(1) mem q have "k' \<noteq> k"
      by (auto simp: image_iff)
    with own_q have "filter (\<lambda>ra. ra_PullRequestID ra = k) (g k' p') = []"
      by (auto simp: filter_empty_conv)
    with Cons.IH [OF dist mem own] q show ?thesis
      by simp
  qed
qed

lemma deactivationPlan_new:
  assumes "prs_wf r" and "ra \<in> set (deactivationPlan r ids)"
  shows "NewReviewerID ra = '''' \<or> NewReviewerID ra \<notin> set ids"
proof -
  from assms(2) obtain k p where
    "ra \<in> set (fst (processPRReassignments r p (reviewersAt r k) (\<lambda>x. x \<in> set ids)))"
    unfolding deactivationPlan_processed [OF assms(1)] by auto
  with processPRReassignments_records [of r p "reviewersAt r k" "\<lambda>x. x \<in> set ids"]
  show ?thesis by blast
qed

lemma deactivationPlan_olds:
  assumes pwf: "prs_wf r" and authors: "authors_exist r"
    and mem: "(k, p) \<in> set (prs r)" and op: "Status p = PRStatusOpen"
  shows "map OldReviewerID (filter (\<lambda>ra. ra_PullRequestID ra = k) (deactivationPlan r ids))
           = filter (\<lambda>x. x \<in> set ids) (reviewersAt r k)"
proof -
  let ?A = "\<lambda>(k, p). Status p = PRStatusOpen \<and> (\<exists>x \<in> set (reviewersAt r k). x \<in> set ids)"
  let ?g = "\<lambda>k p. fst (processPRReassignments r p (reviewersAt r k) (\<lambda>x. x \<in> set ids))"
  let ?xs = "filter ?A (prs r)"
  have dist: "distinct (map fst ?xs)"
    using pwf by (simp add: prs_wf_def distinct_map_filter)
  have own: "\<forall>(k', p') \<in> set ?xs. \<forall>ra \<in> set (?g k' p'). ra_PullRequestID ra = k'"
  proof (intro ballI, clarify)
    fix k' p' ra
    assume "(k', p') \<in> set ?xs" and ra: "ra \<in> set (?g k' p')"
    then have "(k', p') \<in> set (prs r)" by simp
    with pwf have "PullRequestID p' = k'"
      by (auto simp: prs_wf_def)
    with processPRReassignments_records [of r p' "reviewersAt r k'" "\<lambda>x. x \<in> set ids"] ra
    show "ra_PullRequestID ra = k'" by blast
  qed
  have plan: "filter (\<lambda>ra. ra_PullRequestID ra = k) (deactivationPlan r ids)
                = concat (map (\<lambda>(k', p'). filter (\<lambda>ra. ra_PullRequestID ra = k) (?g k' p')) ?xs)"
    unfolding deactivationPlan_processed [OF pwf] filter_concat map_map
    by (rule arg_cong [where f = concat], rule map_cong [OF refl]) auto
  show ?thesis
  proof (cases "\<exists>x \<in> set (reviewersAt r k). x \<in> set ids")
    case True
    with mem op have "(k, p) \<in> set ?xs" by simp
    from concat_one_key [OF dist this own]
    have "filter (\<lambda>ra. ra_PullRequestID ra = k) (deactivationPlan r ids) = ?g k p"
      unfolding plan .
    moreover from authors mem obtain author where "map_of (users r) (AuthorID p) = Some author"
      by (auto simp: authors_exist_def)
    ultimately show ?thesis
      by (simp add: processPRReassignments_olds)
  next
    case False
    have "k \<notin> fst ` set ?xs"
      using False by force
    from concat_other_keys [OF this own]
    have "filter (\<lambda>ra. ra_PullRequestID ra = k) (deactivationPlan r ids) = []"
      unfolding plan .
    moreover from False have "filter (\<lambda>x. x \<in> set ids) (reviewersAt r k) = []"
      by (auto simp: filter_empty_conv)
    ultimately show ?thesis by simp
  qed
qed

text \<open>Applying a plan: who can be a reviewer afterwards.\<close>

lemma BulkReassignReviewers_fields [simp]:
  "prs (BulkReassignReviewers r plan) = prs r"
  "users (BulkReassignReviewers r plan) = users r"
  "teams (BulkReassignReviewers r plan) = teams r"
  unfolding BulkReassignReviewers_def
  by (induction plan arbitrary: r) (simp_all add: reassignOne_def Let_def)

lemma BulkReassignReviewers_member:
  assumes "x \<in> set (reviewersAt (BulkReassignReviewers r plan) k)"
  shows "(x \<in> set (reviewersAt r k)
            \<and> \<not> (\<exists>ra \<in> set plan. ra_PullRequestID ra = k \<and> OldReviewerID ra = x))
       \<or> (\<exists>ra \<in> set plan. ra_PullRequestID ra = k \<and> NewReviewerID ra = x \<and> x \<noteq> '''')"
  using assms unfolding BulkReassignReviewers_def
proof (induction plan arbitrary: r)
  case Nil
  then show ?case by simp
next
  case (Cons ra plan)
  from Cons.prems have "x \<in> set (reviewersAt (fold reassignOne plan (reassignOne ra r)) k)"
    by simp
  from Cons.IH [OF this] show ?case
    by (auto simp: reassignOne_reviewers split: if_splits)
qed

lemma deactivateOne_step:
  "map_of (deactivateOne i us) x
     = (case map_of us x of
          None \<Rightarrow> None
        | Some u \<Rightarrow> Some (if x = i then u\<lparr>IsActive := False\<rparr> else u))"
  by (cases "x = i") (auto simp: deactivateOne_def split: option.splits)

lemma deactivateOne_lookup:
  "map_of (fold deactivateOne ids us) x
     = (case map_of us x of
          None \<Rightarrow> None
        | Some u \<Rightarrow> Some (if x \<in> set ids then u\<lparr>IsActive := False\<rparr> else u))"
proof (induction ids arbitrary: us)
  case Nil
  show ?case by (simp split: option.splits)
next
  case (Cons i ids)
  have "map_of (fold deactivateOne (i # ids) us) x
          = (case map_of (deactivateOne i us) x of
               None \<Rightarrow> None
             | Some u \<Rightarrow> Some (if x \<in> set ids then u\<lparr>IsActive := False\<rparr> else u))"
    by (simp only: fold_Cons comp_apply Cons.IH)
  then show ?case
    by (simp add: deactivateOne_step split: option.splits)
qed

lemma DeactivateUsers_fields [simp]:
  "prs (DeactivateUsers r ids) = prs r"
  "prReviewers (DeactivateUsers r ids) = prReviewers r"
  "teams (DeactivateUsers r ids) = teams r"
  "reviewersAt (DeactivateUsers r ids) k = reviewersAt r k"
  by (simp_all add: DeactivateUsers_def reviewersAt_def)

lemma filterValidTeamUsers_stored:
  "x \<in> set (filterValidTeamUsers r req) \<Longrightarrow> \<exists>u. map_of (users r) x = Some u"
  by (auto simp: filterValidTeamUsers_def GetUser_def split: option.splits)

lemma DeactivateTeamUsers_flags:
  assumes "DeactivateTeamUsers r req = (r', Inr resp)" and "x \<in> set (DeactivatedUsers resp)"
  shows "\<exists>u. map_of (users r') x = Some u \<and> \<not> IsActive u"
proof -
  from DeactivateTeamUsers_success [OF assms(1)] assms(2)
  have x: "x \<in> set (filterValidTeamUsers r req)"
    and r': "users r' = fold deactivateOne (filterValidTeamUsers r req) (users r)"
    by (simp_all add: DeactivateUsers_def)
  from filterValidTeamUsers_stored [OF x] obtain u where "map_of (users r) x = Some u" ..
  with x show ?thesis
    by (simp add: r' deactivateOne_lookup)
qed

lemma DeactivateTeamUsers_clears:
  assumes pwf: "prs_wf r" and authors: "authors_exist r"
    and ok: "DeactivateTeamUsers r req = (r', Inr resp)"
    and x: "x \<in> set (DeactivatedUsers resp)"
    and mem: "(k, p) \<in> set (prs r')" and op: "Status p = PRStatusOpen"
  shows "x \<notin> set (reviewersAt r' k)"
proof
  let ?ids = "DeactivatedUsers resp"
  let ?plan = "deactivationPlan r ?ids"
  from DeactivateTeamUsers_success [OF ok]
  have r': "r' = DeactivateUsers (BulkReassignReviewers r ?plan) ?ids"
    by simp
  from mem have mem0: "(k, p) \<in> set (prs r)"
    by (simp add: r')
  assume "x \<in> set (reviewersAt r' k)"
  then have "x \<in> set (reviewersAt (BulkReassignReviewers r ?plan) k)"
    by (simp add: r')
  from BulkReassignReviewers_member [OF this]
  show False
  proof
    assume kept: "x \<in> set (reviewersAt r k)
                    \<and> \<not> (\<exists>ra \<in> set ?plan. ra_PullRequestID ra = k \<and> OldReviewerID ra = x)"
    with x have "x \<in> set (filter (\<lambda>x. x \<in> set ?ids) (reviewersAt r k))"
      by simp
    then have "x \<in> set (map OldReviewerID (filter (\<lambda>ra. ra_PullRequestID ra = k) ?plan))"
      by (simp only: deactivationPlan_olds [OF pwf authors mem0 op])
    with kept show False
      by auto
  next
    assume "\<exists>ra \<in> set ?plan. ra_PullRequestID ra = k \<and> NewReviewerID ra = x \<and> x \<noteq> ''''"
    then obtain ra where "ra \<in> set ?plan" and "NewReviewerID ra = x" and "x \<noteq> ''''"
      by blast
    with deactivationPlan_new [OF pwf, of ra ?ids] x show False
      by auto
  qed
qed

lemma reviewers_distinct_at: "reviewers_distinct r \<Longrightarrow> distinct (reviewersAt r k)"
  by (auto simp: reviewers_distinct_def reviewersAt_def split: option.splits dest: map_of_SomeD)




section \<open>A successful reassignment\<close>

lemma GetActiveTeamMembers_stored:
  assumes "users_wf r" and "c \<in> set (GetActiveTeamMembers r t x)"
  shows "map_of (users r) (UserID c) = Some c \<and> TeamName c = t \<and> IsActive c \<and> UserID c \<noteq> x"
proof -
  from assms(2) obtain k where k: "(k, c) \<in> set (users r)"
    and props: "TeamName c = t" "IsActive c" "UserID c \<noteq> x"
    by (auto simp: GetActiveTeamMembers_def)
  from users_wf_key [OF assms(1) k] k have "map_of (users r) (UserID c) = Some c"
    by (simp add: users_wf_lookup [OF assms(1)])
  with props show ?thesis by simp
qed

lemma indexAt_member: "indexAt xs i = Inr x \<Longrightarrow> x \<in> set xs"
  by (auto simp: indexAt_def split: if_splits)

text \<open>
  C4. For every successful \<open>ReassignReviewer\<close> on a well-formed repository in which the
  pull request lists no reviewer twice, the returned reviewers are the former ones
  without the old reviewer, followed by the new one. They do not contain the old
  reviewer and contain the new one exactly once. The new reviewer is not the author,
  was not a reviewer before the call, and is a stored, active user of the old
  reviewer's team.
\<close>

theorem ReassignReviewer_success:
  assumes wf: "users_wf r"
    and dist: "distinct (reviewersAt r (rr_PullRequestID req))"
    and ok: "ReassignReviewer r Intn req = (r', Inr resp)"
  shows "\<exists>pr old new.
           map_of (prs r) (rr_PullRequestID req) = Some pr
         \<and> map_of (users r) (OldUserID req) = Some old
         \<and> map_of (users r) (ReplacedBy resp) = Some new
         \<and> IsActive new \<and> TeamName new = TeamName old
         \<and> AssignedReviewers (PR resp)
             = remove1 (OldUserID req) (reviewersAt r (rr_PullRequestID req)) @ [ReplacedBy resp]
         \<and> OldUserID req \<notin> set (AssignedReviewers (PR resp))
         \<and> count_list (AssignedReviewers (PR resp)) (ReplacedBy resp) = 1
         \<and> resp_AuthorID (PR resp) = AuthorID pr
         \<and> ReplacedBy resp \<noteq> AuthorID pr
         \<and> ReplacedBy resp \<notin> set (reviewersAt r (rr_PullRequestID req))
         \<and> reviewersAt r' (rr_PullRequestID req) = AssignedReviewers (PR resp)"
proof -
  let ?id = "rr_PullRequestID req"
  let ?revs = "reviewersAt r ?id"
  from ok obtain pr old new where
        pr: "map_of (prs r) ?id = Some pr"
    and old: "map_of (users r) (OldUserID req) = Some old"
    and new: "indexAt (filterAvailableReviewers
                         (GetActiveTeamMembers r (TeamName old) (OldUserID req)) pr ?revs)
                (Intn (length (filterAvailableReviewers
                         (GetActiveTeamMembers r (TeamName old) (OldUserID req)) pr ?revs)))
              = Inr new"
    and r': "r' = AddReviewer (RemoveReviewer r ?id (OldUserID req)) ?id (UserID new)"
    and resp: "resp = \<lparr>PR = prResponse pr (remove1 (OldUserID req) ?revs @ [UserID new]),
                       ReplacedBy = UserID new\<rparr>"
    by (auto simp: ReassignReviewer_def GetPRWithReviewers_def GetUser_def Let_def
             split: option.splits sum.splits if_splits)
  from indexAt_member [OF new]
  have cand: "new \<in> set (GetActiveTeamMembers r (TeamName old) (OldUserID req))"
    and notauthor: "UserID new \<noteq> AuthorID pr"
    and fresh: "UserID new \<notin> set ?revs"
    by (simp_all add: filterAvailableReviewers_def)
  from GetActiveTeamMembers_stored [OF wf cand]
  have stored: "map_of (users r) (UserID new) = Some new"
    and team: "TeamName new = TeamName old" and active: "IsActive new"
    and notold: "UserID new \<noteq> OldUserID req"
    by simp_all
  have gone: "OldUserID req \<notin> set (remove1 (OldUserID req) ?revs @ [UserID new])"
    using dist notold by simp
  have "UserID new \<notin> set (remove1 (OldUserID req) ?revs)"
    using fresh set_remove1_subset [of "OldUserID req" ?revs] by blast
  then have "count_list (remove1 (OldUserID req) ?revs) (UserID new) = 0"
    by (rule count_list_0_iff [THEN iffD2])
  then have once: "count_list (remove1 (OldUserID req) ?revs @ [UserID new]) (UserID new) = 1"
    unfolding count_list_append by simp
  have after: "reviewersAt r' ?id = remove1 (OldUserID req) ?revs @ [UserID new]"
    by (simp add: r')
  from pr old stored active team gone once notauthor fresh after show ?thesis
    by (simp add: resp prResponse_def)
qed

theorem ReassignReviewer_success_witness:
  "users_wf exRepo
 \<and> distinct (reviewersAt exRepo ''p1'')
 \<and> snd (ReassignReviewer exRepo exIntn (exReassign ''p1'' ''u2''))
      = Inr \<lparr>PR = exReassigned, ReplacedBy = ''u4''\<rparr>
 \<and> ''u2'' \<notin> set (AssignedReviewers exReassigned)
 \<and> count_list (AssignedReviewers exReassigned) ''u4'' = 1
 \<and> ''u4'' \<notin> set (reviewersAt exRepo ''p1'')
 \<and> reviewersAt (fst (ReassignReviewer exRepo exIntn (exReassign ''p1'' ''u2''))) ''p1''
      = [''u3'', ''u4'']"
proof -
  let ?req = "exReassign ''p1'' ''u2''"
  let ?resp = "\<lparr>PR = exReassigned, ReplacedBy = ''u4''\<rparr>"
  have wf: "users_wf exRepo"
    by (simp add: users_wf_def example_defs)
  have revs: "reviewersAt exRepo ''p1'' = [''u2'', ''u3'']"
    by (simp add: reviewersAt_def example_defs)
  then have dist: "distinct (reviewersAt exRepo (rr_PullRequestID ?req))"
    by (simp add: exReassign_def)
  have run: "snd (ReassignReviewer exRepo exIntn ?req) = Inr ?resp"
    by (simp add: ReassignReviewer_def GetPRWithReviewers_def IsReviewerAssigned_def GetUser_def
          GetActiveTeamMembers_def filterAvailableReviewers_def indexAt_def exIntn_def
          exReassigned_def reviewersAt_def RemoveReviewer_def AddReviewer_def Let_def
          example_defs)
  then have ok: "ReassignReviewer exRepo exIntn ?req
                   = (fst (ReassignReviewer exRepo exIntn ?req), Inr ?resp)"
    by (simp add: prod_eq_iff)
  from ReassignReviewer_success [OF wf dist ok] revs wf run show ?thesis
    by (auto simp: exReassign_def exReassigned_def prResponse_def)
qed

section \<open>Failures of a reassignment\<close>

text \<open>
  C5. \<open>ReassignReviewer\<close> fails with \<open>ErrPRNotFound\<close> when the pull request does not
  exist; with \<open>ErrPRMerged\<close> when it is merged, whether or not the old reviewer is
  assigned; with \<open>ErrReviewerNotAssigned\<close> when it is open and the old reviewer is not
  among its reviewers, whatever the candidates are; and with \<open>ErrNoActiveCandidate\<close> when
  the old reviewer is assigned, is a stored user, and no active member of that user's team
  other than the old reviewer, the author and the current reviewers exists. Every failure
  leaves the repository, hence the reviewers of the pull request, as it was.
\<close>

theorem ReassignReviewer_failures:
  "(map_of (prs r) (rr_PullRequestID req) = None
      \<longrightarrow> ReassignReviewer r Intn req = (r, Inl ErrPRNotFound))
 \<and> (\<forall>pr. map_of (prs r) (rr_PullRequestID req) = Some pr \<and> Status pr = PRStatusMerged
      \<longrightarrow> ReassignReviewer r Intn req = (r, Inl ErrPRMerged))
 \<and> (\<forall>pr. map_of (prs r) (rr_PullRequestID req) = Some pr \<and> Status pr \<noteq> PRStatusMerged
        \<and> OldUserID req \<notin> set (reviewersAt r (rr_PullRequestID req))
      \<longrightarrow> ReassignReviewer r Intn req = (r, Inl ErrReviewerNotAssigned))
 \<and> (\<forall>pr old. map_of (prs r) (rr_PullRequestID req) = Some pr \<and> Status pr \<noteq> PRStatusMerged
        \<and> OldUserID req \<in> set (reviewersAt r (rr_PullRequestID req))
        \<and> map_of (users r) (OldUserID req) = Some old
        \<and> \<not> (\<exists>(k, u) \<in> set (users r). TeamName u = TeamName old \<and> IsActive u
                \<and> UserID u \<noteq> OldUserID req \<and> UserID u \<noteq> AuthorID pr
                \<and> UserID u \<notin> set (reviewersAt r (rr_PullRequestID req)))
      \<longrightarrow> ReassignReviewer r Intn req = (r, Inl ErrNoActiveCandidate))
 \<and> (\<forall>r' e. ReassignReviewer r Intn req = (r', Inl e) \<longrightarrow> r' = r)"
proof (intro conjI allI impI)
  assume "map_of (prs r) (rr_PullRequestID req) = None"
  then show "ReassignReviewer r Intn req = (r, Inl ErrPRNotFound)"
    by (simp add: ReassignReviewer_def GetPRWithReviewers_def)
next
  fix pr
  assume "map_of (prs r) (rr_PullRequestID req) = Some pr \<and> Status pr = PRStatusMerged"
  then show "ReassignReviewer r Intn req = (r, Inl ErrPRMerged)"
    by (simp add: ReassignReviewer_def GetPRWithReviewers_def)
next
  fix pr
  assume "map_of (prs r) (rr_PullRequestID req) = Some pr \<and> Status pr \<noteq> PRStatusMerged
            \<and> OldUserID req \<notin> set (reviewersAt r (rr_PullRequestID req))"
  then show "ReassignReviewer r Intn req = (r, Inl ErrReviewerNotAssigned)"
    by (simp add: ReassignReviewer_def GetPRWithReviewers_def IsReviewerAssigned_iff)
next
  fix pr old
  assume h: "map_of (prs r) (rr_PullRequestID req) = Some pr \<and> Status pr \<noteq> PRStatusMerged
        \<and> OldUserID req \<in> set (reviewersAt r (rr_PullRequestID req))
        \<and> map_of (users r) (OldUserID req) = Some old
        \<and> \<not> (\<exists>(k, u) \<in> set (users r). TeamName u = TeamName old \<and> IsActive u
                \<and> UserID u \<noteq> OldUserID req \<and> UserID u \<noteq> AuthorID pr
                \<and> UserID u \<notin> set (reviewersAt r (rr_PullRequestID req)))"
  then have "filterAvailableReviewers
               (GetActiveTeamMembers r (TeamName old) (OldUserID req)) pr
               (reviewersAt r (rr_PullRequestID req)) = []"
    by (auto simp: filterAvailableReviewers_def GetActiveTeamMembers_def filter_empty_conv)
  with h show "ReassignReviewer r Intn req = (r, Inl ErrNoActiveCandidate)"
    by (simp add: ReassignReviewer_def GetPRWithReviewers_def IsReviewerAssigned_iff GetUser_def)
next
  fix r' e
  assume "ReassignReviewer r Intn req = (r', Inl e)"
  then show "r' = r"
    by (auto simp: ReassignReviewer_def GetPRWithReviewers_def Let_def
             split: sum.splits if_splits option.splits prod.splits)
qed

theorem ReassignReviewer_failures_witness:
  "ReassignReviewer exRepo (\<lambda>n. 0) (exReassign ''zz'' ''u2'') = (exRepo, Inl ErrPRNotFound)
 \<and> ReassignReviewer exRepoMerged (\<lambda>n. 0) (exReassign ''p1'' ''u4'') = (exRepoMerged, Inl ErrPRMerged)
 \<and> ReassignReviewer exRepo (\<lambda>n. 0) (exReassign ''p1'' ''u4'') = (exRepo, Inl ErrReviewerNotAssigned)
 \<and> ReassignReviewer exRepoNoCandidate (\<lambda>n. 0) (exReassign ''p1'' ''u2'')
      = (exRepoNoCandidate, Inl ErrNoActiveCandidate)"
proof (intro conjI)
  have "map_of (prs exRepo) (rr_PullRequestID (exReassign ''zz'' ''u2'')) = None"
    by (simp add: example_defs)
  with ReassignReviewer_failures [of exRepo "exReassign ''zz'' ''u2''" "\<lambda>n. 0"]
  show "ReassignReviewer exRepo (\<lambda>n. 0) (exReassign ''zz'' ''u2'') = (exRepo, Inl ErrPRNotFound)"
    by blast
next
  have "map_of (prs exRepoMerged) (rr_PullRequestID (exReassign ''p1'' ''u4''))
          = Some (exPR ''p1'' ''u1'' PRStatusMerged (Some 5))
        \<and> Status (exPR ''p1'' ''u1'' PRStatusMerged (Some 5)) = PRStatusMerged"
    by (simp add: example_defs)
  with ReassignReviewer_failures [of exRepoMerged "exReassign ''p1'' ''u4''" "\<lambda>n. 0"]
  show "ReassignReviewer exRepoMerged (\<lambda>n. 0) (exReassign ''p1'' ''u4'')
          = (exRepoMerged, Inl ErrPRMerged)"
    by blast
next
  have "map_of (prs exRepo) (rr_PullRequestID (exReassign ''p1'' ''u4''))
          = Some (exPR ''p1'' ''u1'' PRStatusOpen None)
        \<and> Status (exPR ''p1'' ''u1'' PRStatusOpen None) \<noteq> PRStatusMerged
        \<and> OldUserID (exReassign ''p1'' ''u4'')
            \<notin> set (reviewersAt exRepo (rr_PullRequestID (exReassign ''p1'' ''u4'')))"
    by (simp add: example_defs reviewersAt_def)
  with ReassignReviewer_failures [of exRepo "exReassign ''p1'' ''u4''" "\<lambda>n. 0"]
  show "ReassignReviewer exRepo (\<lambda>n. 0) (exReassign ''p1'' ''u4'')
          = (exRepo, Inl ErrReviewerNotAssigned)"
    by blast
next
  let ?req = "exReassign ''p1'' ''u2''"
  let ?pr = "exPR ''p1'' ''u1'' PRStatusOpen None"
  let ?old = "exUser ''u2'' ''b'' True"
  have "map_of (prs exRepoNoCandidate) (rr_PullRequestID ?req) = Some ?pr
        \<and> Status ?pr \<noteq> PRStatusMerged
        \<and> OldUserID ?req \<in> set (reviewersAt exRepoNoCandidate (rr_PullRequestID ?req))
        \<and> map_of (users exRepoNoCandidate) (OldUserID ?req) = Some ?old
        \<and> \<not> (\<exists>(k, u) \<in> set (users exRepoNoCandidate). TeamName u = TeamName ?old \<and> IsActive u
                \<and> UserID u \<noteq> OldUserID ?req \<and> UserID u \<noteq> AuthorID ?pr
                \<and> UserID u \<notin> set (reviewersAt exRepoNoCandidate (rr_PullRequestID ?req)))"
    by (simp add: example_defs reviewersAt_def)
  with ReassignReviewer_failures [of exRepoNoCandidate ?req "\<lambda>n. 0"]
  show "ReassignReviewer exRepoNoCandidate (\<lambda>n. 0) ?req
          = (exRepoNoCandidate, Inl ErrNoActiveCandidate)"
    by blast
qed

section \<open>The validity filter of a mass deactivation\<close>

text \<open>
  The claim that an empty filter result always gives BAD_REQUEST fails on a team that does
  not exist: no requested id survives the filter, and the operation fails with
  \<open>ErrTeamNotFound\<close>, because \<^verbatim>\<open>getValidTeamUserIDsForDeactivation\<close> looks the team up
  before it filters.
\<close>

theorem DeactivateTeamUsers_filter_counterexample:
  "filterValidTeamUsers exRepo (exDeactivate ''ghost'' [''u2'']) = []
 \<and> DeactivateTeamUsers exRepo (exDeactivate ''ghost'' [''u2''])
      \<noteq> (exRepo, Inl (AppError ErrCodeBadRequest ''no valid users to deactivate''))
 \<and> DeactivateTeamUsers exRepo (exDeactivate ''ghost'' [''u2''])
      = (exRepo, Inl (AppError ErrCodeNotFound ''team not found''))"
  by (simp add: example_defs DeactivateTeamUsers_def getValidTeamUserIDsForDeactivation_def
        repo_GetTeam_def filterValidTeamUsers_def GetUser_def error_defs)

text \<open>
  C6, amended. When the team exists, \<open>DeactivateTeamUsers\<close> keeps exactly the requested
  ids that are stored users of that team, in the order of the request, and drops the
  others without an error. If no id is kept it fails with BAD_REQUEST and the message
  "no valid users to deactivate", leaving the repository unchanged; otherwise it succeeds
  and reports the kept ids as deactivated.
\<close>

theorem DeactivateTeamUsers_filter:
  assumes "map_of (teams r) (dtu_TeamName req) \<noteq> None"
  shows "filterValidTeamUsers r req
           = filter (\<lambda>userID. \<exists>u. map_of (users r) userID = Some u
                                   \<and> TeamName u = dtu_TeamName req) (UserIDs req)
       \<and> (filterValidTeamUsers r req = []
            \<longrightarrow> DeactivateTeamUsers r req
                  = (r, Inl (AppError ErrCodeBadRequest ''no valid users to deactivate'')))
       \<and> (filterValidTeamUsers r req \<noteq> []
            \<longrightarrow> (\<exists>r' resp. DeactivateTeamUsers r req = (r', Inr resp)
                           \<and> DeactivatedUsers resp = filterValidTeamUsers r req))"
proof (intro conjI impI)
  show "filterValidTeamUsers r req
           = filter (\<lambda>userID. \<exists>u. map_of (users r) userID = Some u
                                   \<and> TeamName u = dtu_TeamName req) (UserIDs req)"
    unfolding filterValidTeamUsers_def GetUser_def
    by (rule filter_cong) (auto split: option.splits)
next
  assume "filterValidTeamUsers r req = []"
  with assms show "DeactivateTeamUsers r req
                  = (r, Inl (AppError ErrCodeBadRequest ''no valid users to deactivate''))"
    by (auto simp: DeactivateTeamUsers_def getValidTeamUserIDsForDeactivation_def
          repo_GetTeam_def NewAppError_def)
next
  assume "filterValidTeamUsers r req \<noteq> []"
  with assms show "\<exists>r' resp. DeactivateTeamUsers r req = (r', Inr resp)
                           \<and> DeactivatedUsers resp = filterValidTeamUsers r req"
    by (auto simp: DeactivateTeamUsers_def getValidTeamUserIDsForDeactivation_def
          repo_GetTeam_def split: prod.splits)
qed

theorem DeactivateTeamUsers_filter_witness:
  "filterValidTeamUsers exRepo (exDeactivate ''b'' [''zz'', ''u2'']) = [''u2'']
 \<and> DeactivateTeamUsers exRepo (exDeactivate ''b'' [''zz''])
      = (exRepo, Inl (AppError ErrCodeBadRequest ''no valid users to deactivate''))
 \<and> (\<exists>r' resp. DeactivateTeamUsers exRepo (exDeactivate ''b'' [''zz'', ''u2'']) = (r', Inr resp)
              \<and> DeactivatedUsers resp = [''u2''])"
proof -
  have t1: "map_of (teams exRepo) (dtu_TeamName (exDeactivate ''b'' [''zz''])) \<noteq> None"
   and t2: "map_of (teams exRepo) (dtu_TeamName (exDeactivate ''b'' [''zz'', ''u2''])) \<noteq> None"
    by (simp_all add: example_defs)
  have f1: "filterValidTeamUsers exRepo (exDeactivate ''b'' [''zz'']) = []"
   and f2: "filterValidTeamUsers exRepo (exDeactivate ''b'' [''zz'', ''u2'']) = [''u2'']"
    by (simp_all add: example_defs filterValidTeamUsers_def GetUser_def)
  from DeactivateTeamUsers_filter [OF t1] DeactivateTeamUsers_filter [OF t2] f1 f2
  show ?thesis by simp
qed

section \<open>Merging a pull request\<close>

text \<open>
  C7. Calling \<open>MergePR\<close> twice on an existing pull request succeeds both times with the
  same response: status MERGED, the same merge time and the same reviewers, whatever the
  clock reads at the second call. The second call leaves the repository as the first
  call left it.
\<close>

theorem MergePR_idempotent:
  assumes "map_of (prs r) prID = Some pr"
  shows "\<exists>r1 resp.
           MergePR r now1 prID = (r1, Inr resp)
         \<and> MergePR r1 now2 prID = (r1, Inr resp)
         \<and> resp_Status resp = PRStatusMerged
         \<and> resp_MergedAt resp = (if Status pr = PRStatusMerged then MergedAt pr else Some now1)
         \<and> AssignedReviewers resp = reviewersAt r prID"
proof (cases "Status pr = PRStatusMerged")
  case True
  with assms show ?thesis
    by (simp add: MergePR_def GetPRWithReviewers_def prResponse_def)
next
  case False
  let ?pr' = "pr\<lparr>Status := PRStatusMerged, MergedAt := Some now1\<rparr>"
  let ?r1 = "r\<lparr>prs := AList.update prID ?pr' (prs r)\<rparr>"
  have first: "MergePR r now1 prID = (?r1, Inr (prResponse ?pr' (reviewersAt r prID)))"
    using assms False
    by (simp add: MergePR_def GetPRWithReviewers_def repo_MergePR_def reviewersAt_def)
  have second: "MergePR ?r1 now2 prID = (?r1, Inr (prResponse ?pr' (reviewersAt r prID)))"
    by (simp add: MergePR_def GetPRWithReviewers_def reviewersAt_def)
  from first second False show ?thesis
    by (simp add: prResponse_def)
qed

theorem MergePR_idempotent_witness:
  "map_of (prs exRepo) ''p1'' = Some (exPR ''p1'' ''u1'' PRStatusOpen None)
   \<and> (\<exists>r1 resp.
           MergePR exRepo 8 ''p1'' = (r1, Inr resp)
         \<and> MergePR r1 9 ''p1'' = (r1, Inr resp)
         \<and> resp_Status resp = PRStatusMerged
         \<and> resp_MergedAt resp = Some 8
         \<and> AssignedReviewers resp = [''u2'', ''u3''])"
proof -
  have h: "map_of (prs exRepo) ''p1'' = Some (exPR ''p1'' ''u1'' PRStatusOpen None)"
    by (simp add: example_defs)
  have "reviewersAt exRepo ''p1'' = [''u2'', ''u3'']"
    by (simp add: example_defs reviewersAt_def)
  with MergePR_idempotent [OF h, of 8 9] h show ?thesis
    by (simp add: exPR_def)
qed

section \<open>Deactivating users of a team that does not exist\<close>

text \<open>
  C8. \<open>DeactivateTeamUsers\<close> on a team name that the repository does not hold fails with
  \<open>ErrTeamNotFound\<close>, whose code is NOT_FOUND and not BAD_REQUEST, whatever user ids are
  requested, and leaves the repository unchanged.
\<close>

theorem DeactivateTeamUsers_unknown_team:
  assumes "map_of (teams r) (dtu_TeamName req) = None"
  shows "DeactivateTeamUsers r req = (r, Inl ErrTeamNotFound)
       \<and> error_code ErrTeamNotFound = Some ErrCodeNotFound
       \<and> error_code ErrTeamNotFound \<noteq> Some ErrCodeBadRequest"
  using assms
  by (simp add: DeactivateTeamUsers_def getValidTeamUserIDsForDeactivation_def
        repo_GetTeam_def error_defs)

theorem DeactivateTeamUsers_unknown_team_witness:
  "map_of (teams exRepo) (dtu_TeamName (exDeactivate ''ghost'' [''u2''])) = None
 \<and> DeactivateTeamUsers exRepo (exDeactivate ''ghost'' [''u2'']) = (exRepo, Inl ErrTeamNotFound)
 \<and> error_code ErrTeamNotFound = Some ErrCodeNotFound"
proof -
  have h: "map_of (teams exRepo) (dtu_TeamName (exDeactivate ''ghost'' [''u2''])) = None"
    by (simp add: example_defs)
  from DeactivateTeamUsers_unknown_team [OF h] h show ?thesis
    by simp
qed

section \<open>Deactivating users that are already inactive\<close>

lemma filterValidTeamUsers_spec:
  "filterValidTeamUsers r req
     = filter (\<lambda>userID. \<exists>u. map_of (users r) userID = Some u \<and> TeamName u = dtu_TeamName req)
              (UserIDs req)"
  unfolding filterValidTeamUsers_def GetUser_def
  by (rule filter_cong) (auto split: option.splits)

text \<open>
  C9. The validity filter gives the same ids whatever the activity flags of the stored
  users are. So when the team exists and every requested id is a stored, already
  inactive user of the team, \<open>DeactivateTeamUsers\<close> succeeds and returns all requested
  ids as deactivated; the plan for their reviewer slots is computed and applied as for
  active users, and afterwards (pull requests filed under their ids, authors stored)
  none of them reviews an open pull request.
\<close>

theorem DeactivateTeamUsers_ignores_activity:
  assumes team: "map_of (teams r) (dtu_TeamName req) \<noteq> None"
    and ne: "UserIDs req \<noteq> []"
    and inactive: "\<forall>x \<in> set (UserIDs req).
                     \<exists>u. map_of (users r) x = Some u \<and> TeamName u = dtu_TeamName req \<and> \<not> IsActive u"
    and pwf: "prs_wf r" and authors: "authors_exist r"
  shows "(\<forall>f. filterValidTeamUsers
                (r\<lparr>users := map (\<lambda>(k, u). (k, u\<lparr>IsActive := f u\<rparr>)) (users r)\<rparr>) req
              = filterValidTeamUsers r req)
       \<and> (\<exists>r' resp. DeactivateTeamUsers r req = (r', Inr resp)
             \<and> DeactivatedUsers resp = UserIDs req
             \<and> (\<forall>x \<in> set (UserIDs req).
                   (\<exists>u. map_of (users r') x = Some u \<and> \<not> IsActive u)
                 \<and> (\<forall>(k, p) \<in> set (prs r'). Status p = PRStatusOpen
                       \<longrightarrow> x \<notin> set (reviewersAt r' k)))
             \<and> r' = DeactivateUsers
                       (BulkReassignReviewers r (deactivationPlan r (UserIDs req)))
                       (UserIDs req))"
proof (intro conjI allI)
  fix f :: "User \<Rightarrow> bool"
  let ?r = "r\<lparr>users := map (\<lambda>(k, u). (k, u\<lparr>IsActive := f u\<rparr>)) (users r)\<rparr>"
  have "map_of (users ?r) x = map_option (\<lambda>u. u\<lparr>IsActive := f u\<rparr>) (map_of (users r) x)" for x
    by (simp add: map_of_map)
  then have "(\<exists>u. map_of (users ?r) x = Some u \<and> TeamName u = dtu_TeamName req)
               \<longleftrightarrow> (\<exists>u. map_of (users r) x = Some u \<and> TeamName u = dtu_TeamName req)" for x
    by (cases "map_of (users r) x") auto
  then show "filterValidTeamUsers ?r req = filterValidTeamUsers r req"
    unfolding filterValidTeamUsers_spec by simp
next
  have valid: "filterValidTeamUsers r req = UserIDs req"
    unfolding filterValidTeamUsers_spec using inactive by (auto simp: filter_id_conv)
  with team ne have "\<exists>r' resp. DeactivateTeamUsers r req = (r', Inr resp)"
    by (auto simp: DeactivateTeamUsers_def getValidTeamUserIDsForDeactivation_def repo_GetTeam_def
          split: prod.splits)
  then obtain r' resp where ok: "DeactivateTeamUsers r req = (r', Inr resp)"
    by blast
  from DeactivateTeamUsers_success [OF ok] valid
  have ids: "DeactivatedUsers resp = UserIDs req"
    and r': "r' = DeactivateUsers
                    (BulkReassignReviewers r (deactivationPlan r (UserIDs req))) (UserIDs req)"
    by simp_all
  have "(\<exists>u. map_of (users r') x = Some u \<and> \<not> IsActive u)
      \<and> (\<forall>(k, p) \<in> set (prs r'). Status p = PRStatusOpen \<longrightarrow> x \<notin> set (reviewersAt r' k))"
    if "x \<in> set (UserIDs req)" for x
  proof -
    from that ids have x: "x \<in> set (DeactivatedUsers resp)" by simp
    from DeactivateTeamUsers_flags [OF ok x] DeactivateTeamUsers_clears [OF pwf authors ok x]
    show ?thesis by blast
  qed
  with ok ids r' show "\<exists>r' resp. DeactivateTeamUsers r req = (r', Inr resp)
             \<and> DeactivatedUsers resp = UserIDs req
             \<and> (\<forall>x \<in> set (UserIDs req).
                   (\<exists>u. map_of (users r') x = Some u \<and> \<not> IsActive u)
                 \<and> (\<forall>(k, p) \<in> set (prs r'). Status p = PRStatusOpen
                       \<longrightarrow> x \<notin> set (reviewersAt r' k)))
             \<and> r' = DeactivateUsers
                       (BulkReassignReviewers r (deactivationPlan r (UserIDs req)))
                       (UserIDs req)"
    by blast
qed

theorem DeactivateTeamUsers_ignores_activity_witness:
  "map_of (users exRepoInactive) ''u2'' = Some (exUser ''u2'' ''b'' False)
 \<and> map_of (users exRepoInactive) ''u3'' = Some (exUser ''u3'' ''b'' False)
 \<and> reviewersAt exRepoInactive ''p1'' = [''u2'', ''u3'']
 \<and> snd (DeactivateTeamUsers exRepoInactive (exDeactivate ''b'' [''u2'', ''u3''])) = Inr exDeactivated
 \<and> reviewersAt (fst (DeactivateTeamUsers exRepoInactive (exDeactivate ''b'' [''u2'', ''u3'']))) ''p1''
     = [''u4'']"
proof -
  let ?req = "exDeactivate ''b'' [''u2'', ''u3'']"
  have team: "map_of (teams exRepoInactive) (dtu_TeamName ?req) \<noteq> None"
    and ne: "UserIDs ?req \<noteq> []"
    and inactive: "\<forall>x \<in> set (UserIDs ?req).
                     \<exists>u. map_of (users exRepoInactive) x = Some u
                          \<and> TeamName u = dtu_TeamName ?req \<and> \<not> IsActive u"
    and stored: "map_of (users exRepoInactive) ''u2'' = Some (exUser ''u2'' ''b'' False)"
                "map_of (users exRepoInactive) ''u3'' = Some (exUser ''u3'' ''b'' False)"
    and revs: "reviewersAt exRepoInactive ''p1'' = [''u2'', ''u3'']"
    by (simp_all add: example_defs reviewersAt_def)
  have run: "snd (DeactivateTeamUsers exRepoInactive ?req) = Inr exDeactivated"
    and plan: "deactivationPlan exRepoInactive [''u2'', ''u3''] = exPlan"
    by (rule example_plan; simp add: exRepoInactive_def)+
  from DeactivateTeamUsers_ignores_activity
         [OF team ne inactive exRepoInactive_wf(2,3), THEN conjunct2]
  obtain r' resp where "DeactivateTeamUsers exRepoInactive ?req = (r', Inr resp)"
    and "r' = DeactivateUsers
                (BulkReassignReviewers exRepoInactive (deactivationPlan exRepoInactive (UserIDs ?req)))
                (UserIDs ?req)"
    by blast
  then have "fst (DeactivateTeamUsers exRepoInactive ?req)
               = DeactivateUsers (BulkReassignReviewers exRepoInactive exPlan) [''u2'', ''u3'']"
    by (simp add: plan exDeactivate_def)
  then have "reviewersAt (fst (DeactivateTeamUsers exRepoInactive ?req)) ''p1'' = [''u4'']"
    by (simp add: BulkReassignReviewers_def reassignOne_reviewers exPlan_def revs)
  with stored revs run show ?thesis
    by (intro conjI)
qed

section \<open>Creating a team over an existing user\<close>

text \<open>
  C10. There is an input on which \<open>CreateTeam\<close> with a fresh team name succeeds although
  a requested member's id is already stored under another team, and overwrites that
  user: in \<open>exRepo\<close> user \<open>u1\<close> is an active member of team \<open>b\<close> named \<open>u1\<close>; after
  creating team \<open>f\<close> the same id belongs to team \<open>f\<close>, is named \<open>n\<close> and is inactive.
\<close>

theorem CreateTeam_overwrites_existing_user:
  "\<not> TeamExists exRepo (ctr_TeamName exOverwriteReq)
 \<and> GetUser exRepo ''u1''
      = Inr \<lparr>UserID = ''u1'', Username = ''u1'', TeamName = ''b'', IsActive = True\<rparr>
 \<and> snd (CreateTeam exRepo exOverwriteReq)
      = Inr \<lparr>tr_TeamName = ''f'', tr_Members = ctr_Members exOverwriteReq\<rparr>
 \<and> GetUser (fst (CreateTeam exRepo exOverwriteReq)) ''u1''
      = Inr \<lparr>UserID = ''u1'', Username = ''n'', TeamName = ''f'', IsActive = False\<rparr>"
  by (simp add: example_defs CreateTeam_def TeamExists_def repo_CreateTeam_def GetUser_def
        storeMember_def)

section \<open>Every reachable repository is well formed\<close>

lemma update_entries:
  "(k', v') \<in> set (AList.update k v al) \<Longrightarrow> (k', v') = (k, v) \<or> (k', v') \<in> set al"
  by (induction al) (auto split: if_splits)

lemma users_wf_update:
  assumes "distinct (map fst us) \<and> (\<forall>(k, u) \<in> set us. UserID u = k)" and "UserID v = k"
  shows "distinct (map fst (AList.update k v us))
       \<and> (\<forall>(k, u) \<in> set (AList.update k v us). UserID u = k)"
  using assms by (auto simp: distinct_update dest!: update_entries)

lemma storeMember_fold_wf:
  assumes "distinct (map fst us) \<and> (\<forall>(k, u) \<in> set us. UserID u = k)"
  shows "distinct (map fst (fold (storeMember t) members us))
       \<and> (\<forall>(k, u) \<in> set (fold (storeMember t) members us). UserID u = k)"
  using assms
proof (induction members arbitrary: us)
  case Nil
  then show ?case by simp
next
  case (Cons m members)
  have "distinct (map fst (storeMember t m us)) \<and> (\<forall>(k, u) \<in> set (storeMember t m us). UserID u = k)"
    unfolding storeMember_def by (rule users_wf_update [OF Cons.prems]) simp
  from Cons.IH [OF this] show ?case by simp
qed

lemma storeMember_fold_keeps:
  "map_of us a \<noteq> None \<Longrightarrow> map_of (fold (storeMember t) members us) a \<noteq> None"
proof (induction members arbitrary: us)
  case Nil
  then show ?case by simp
next
  case (Cons m members)
  from Cons.prems have "map_of (storeMember t m us) a \<noteq> None"
    by (simp add: storeMember_def update_conv')
  from Cons.IH [OF this] show ?case by simp
qed

lemma deactivateOne_fold_wf:
  assumes "distinct (map fst us) \<and> (\<forall>(k, u) \<in> set us. UserID u = k)"
  shows "distinct (map fst (fold deactivateOne ids us))
       \<and> (\<forall>(k, u) \<in> set (fold deactivateOne ids us). UserID u = k)"
  using assms
proof (induction ids arbitrary: us)
  case Nil
  then show ?case by simp
next
  case (Cons i ids)
  have "distinct (map fst (deactivateOne i us)) \<and> (\<forall>(k, u) \<in> set (deactivateOne i us). UserID u = k)"
  proof (cases "map_of us i")
    case None
    with Cons.prems show ?thesis by (simp add: deactivateOne_def)
  next
    case (Some u)
    with Cons.prems have "UserID u = i"
      by (auto dest: map_of_SomeD)
    then have "UserID (u\<lparr>IsActive := False\<rparr>) = i" by simp
    from users_wf_update [OF Cons.prems this] Some show ?thesis
      by (simp add: deactivateOne_def)
  qed
  from Cons.IH [OF this] show ?case by simp
qed

lemma authors_exist_users:
  assumes "authors_exist r" and "prs r' = prs r"
    and "\<And>a. map_of (users r) a \<noteq> None \<Longrightarrow> map_of (users r') a \<noteq> None"
  shows "authors_exist r'"
  unfolding authors_exist_def
proof (rule ballI)
  fix q
  assume "q \<in> set (prs r')"
  with assms(1,2) have "case q of (k, p) \<Rightarrow> map_of (users r) (AuthorID p) \<noteq> None"
    unfolding authors_exist_def by simp
  with assms(3) show "case q of (k, p) \<Rightarrow> map_of (users r') (AuthorID p) \<noteq> None"
    by (cases q) simp
qed

lemma reviewers_distinct_update:
  assumes "reviewers_distinct r" and "distinct revs"
  shows "reviewers_distinct (r\<lparr>prReviewers := AList.update k revs (prReviewers r)\<rparr>)"
  using assms unfolding reviewers_distinct_def by (auto dest!: update_entries)

lemma repo_inv_New: "repo_inv NewMemoryRepository"
  by (simp add: repo_inv_def users_wf_def prs_wf_def authors_exist_def reviewers_distinct_def
        NewMemoryRepository_def)

lemma repo_inv_CreateTeam:
  assumes "repo_inv r"
  shows "repo_inv (fst (CreateTeam r req))"
proof (cases "TeamExists r (ctr_TeamName req)")
  case True
  then have "fst (CreateTeam r req) = r"
    by (simp add: CreateTeam_def)
  with assms show ?thesis by simp
next
  case False
  let ?members = "map (\<lambda>m. \<lparr>UserID = tm_UserID m, Username = tm_Username m,
                              TeamName = ctr_TeamName req, IsActive = tm_IsActive m\<rparr>)
                      (ctr_Members req)"
  let ?r' = "fst (CreateTeam r req)"
  from False have us: "users ?r' = fold (storeMember (ctr_TeamName req)) ?members (users r)"
    and ps: "prs ?r' = prs r" and rv: "prReviewers ?r' = prReviewers r"
    by (simp_all add: CreateTeam_def repo_CreateTeam_def TeamExists_def Let_def)
  from assms have "users_wf ?r'"
    unfolding repo_inv_def users_wf_def us by (intro storeMember_fold_wf) simp
  moreover from assms have "prs_wf ?r'"
    by (simp add: repo_inv_def prs_wf_def ps)
  moreover from assms have "authors_exist r"
    by (simp add: repo_inv_def)
  then have "authors_exist ?r'"
    by (rule authors_exist_users [OF _ ps]) (simp add: us storeMember_fold_keeps)
  moreover from assms have "reviewers_distinct ?r'"
    by (simp add: repo_inv_def reviewers_distinct_def rv)
  ultimately show ?thesis
    by (simp add: repo_inv_def)
qed

lemma repo_inv_SetUserActive:
  assumes "repo_inv r"
  shows "repo_inv (fst (SetUserActive r req))"
proof (cases "map_of (users r) (sia_UserID req)")
  case None
  then have "fst (SetUserActive r req) = r"
    by (simp add: SetUserActive_def GetUser_def)
  with assms show ?thesis by simp
next
  case (Some u)
  let ?u' = "u\<lparr>IsActive := sia_IsActive req\<rparr>"
  let ?r' = "r\<lparr>users := AList.update (sia_UserID req) ?u' (users r)\<rparr>"
  from Some have r': "fst (SetUserActive r req) = ?r'"
    by (simp add: SetUserActive_def GetUser_def repo_SetUserActive_def)
  from assms Some have "UserID ?u' = sia_UserID req"
    by (auto simp: repo_inv_def users_wf_def dest: map_of_SomeD)
  from users_wf_update [OF _ this, of "users r"] assms have "users_wf ?r'"
    by (simp add: repo_inv_def users_wf_def)
  moreover from assms have "prs_wf ?r'" and "reviewers_distinct ?r'"
    by (simp_all add: repo_inv_def prs_wf_def reviewers_distinct_def)
  moreover from assms have "authors_exist r"
    by (simp add: repo_inv_def)
  then have "authors_exist ?r'"
    by (rule authors_exist_users) (simp_all add: update_conv')
  ultimately show ?thesis
    by (simp add: r' repo_inv_def)
qed

lemma prs_wf_update:
  assumes "prs_wf r" and "PullRequestID pr = k"
  shows "prs_wf (r\<lparr>prs := AList.update k pr (prs r)\<rparr>)"
  using assms unfolding prs_wf_def by (auto simp: distinct_update dest!: update_entries)

lemma repo_inv_MergePR:
  assumes "repo_inv r"
  shows "repo_inv (fst (MergePR r now prID))"
proof (cases "map_of (prs r) prID")
  case None
  then have "fst (MergePR r now prID) = r"
    by (simp add: MergePR_def GetPRWithReviewers_def)
  with assms show ?thesis by simp
next
  case (Some pr)
  show ?thesis
  proof (cases "Status pr = PRStatusMerged")
    case True
    with Some have "fst (MergePR r now prID) = r"
      by (simp add: MergePR_def GetPRWithReviewers_def)
    with assms show ?thesis by simp
  next
    case False
    let ?pr' = "pr\<lparr>Status := PRStatusMerged, MergedAt := Some now\<rparr>"
    let ?r' = "r\<lparr>prs := AList.update prID ?pr' (prs r)\<rparr>"
    from Some False have r': "fst (MergePR r now prID) = ?r'"
      by (simp add: MergePR_def GetPRWithReviewers_def repo_MergePR_def)
    from assms Some have id: "PullRequestID ?pr' = prID"
      and au: "map_of (users r) (AuthorID ?pr') \<noteq> None"
      by (auto simp: repo_inv_def prs_wf_def authors_exist_def dest: map_of_SomeD)
    from assms id have "prs_wf ?r'"
      by (simp add: repo_inv_def prs_wf_update)
    moreover have "authors_exist ?r'"
      unfolding authors_exist_def
    proof (rule ballI)
      fix q
      assume q_in: "q \<in> set (prs ?r')"
      obtain k' p' where q: "q = (k', p')" by (cases q)
      with q_in have "(k', p') \<in> set (AList.update prID ?pr' (prs r))"
        by simp
      from update_entries [OF this] q have "q = (prID, ?pr') \<or> q \<in> set (prs r)"
        by simp
      with assms au show "case q of (k, p) \<Rightarrow> map_of (users ?r') (AuthorID p) \<noteq> None"
        by (auto simp: repo_inv_def authors_exist_def)
    qed
    moreover from assms have "users_wf ?r'" and "reviewers_distinct ?r'"
      by (simp_all add: repo_inv_def users_wf_def reviewers_distinct_def)
    ultimately show ?thesis
      by (simp add: r' repo_inv_def)
  qed
qed

lemma processPRReassignments_fresh:
  "(\<forall>ra \<in> set (fst (processPRReassignments r pr cur deact)).
       NewReviewerID ra = '''' \<or> NewReviewerID ra \<notin> set cur)
   \<and> distinct (filter (\<lambda>n. n \<noteq> '''')
                 (map NewReviewerID (fst (processPRReassignments r pr cur deact))))"
proof (cases "GetUser r (AuthorID pr)")
  case (Inl e)
  then show ?thesis
    by (simp add: processPRReassignments_def)
next
  case (Inr author)
  let ?assigned = "\<lambda>x. x \<in> set cur \<and> \<not> deact x"
  let ?news = "filter (\<lambda>x. \<not> deact x) cur"
  from replaceRemoved_records [of r pr author deact cur "[]" "[]" ?news ?assigned]
  obtain recs olds' news' assigned' where
        run: "replaceRemoved r pr author deact cur ([], [], ?news, ?assigned)
                = ([] @ recs, olds', news', assigned')"
    and props: "\<forall>ra \<in> set recs. ra_PullRequestID ra = PullRequestID pr
                   \<and> (NewReviewerID ra = '''' \<or> \<not> deact (NewReviewerID ra))
                   \<and> (NewReviewerID ra = '''' \<or> \<not> ?assigned (NewReviewerID ra))"
    and dist: "distinct (filter (\<lambda>n. n \<noteq> '''') (map NewReviewerID recs))"
    by blast
  from Inr run have "fst (processPRReassignments r pr cur deact) = recs"
    by (simp add: processPRReassignments_def keepStaying_result)
  moreover from props have "\<forall>ra \<in> set recs. NewReviewerID ra = '''' \<or> NewReviewerID ra \<notin> set cur"
    by blast
  ultimately show ?thesis
    using dist by simp
qed

lemma reassignOne_distinct:
  assumes "reviewers_distinct r"
    and "NewReviewerID ra \<noteq> '''' \<longrightarrow> NewReviewerID ra \<notin> set (reviewersAt r (ra_PullRequestID ra))"
  shows "reviewers_distinct (reassignOne ra r)"
proof -
  let ?revs = "reviewersAt r (ra_PullRequestID ra)"
  let ?new = "filter (\<lambda>x. x \<noteq> OldReviewerID ra) ?revs
                @ (if NewReviewerID ra \<noteq> '''' then [NewReviewerID ra] else [])"
  have "distinct ?new"
    using reviewers_distinct_at [OF assms(1), of "ra_PullRequestID ra"] assms(2) by simp
  from reviewers_distinct_update [OF assms(1) this, of "ra_PullRequestID ra"]
  show ?thesis
    by (cases "NewReviewerID ra = ''''") (simp_all add: reassignOne_def Let_def)
qed

lemma BulkReassignReviewers_distinct:
  assumes "reviewers_distinct r"
    and "\<forall>k. distinct (filter (\<lambda>n. n \<noteq> '''')
                (map NewReviewerID (filter (\<lambda>ra. ra_PullRequestID ra = k) plan)))"
    and "\<forall>ra \<in> set plan. NewReviewerID ra \<noteq> ''''
            \<longrightarrow> NewReviewerID ra \<notin> set (reviewersAt r (ra_PullRequestID ra))"
  shows "reviewers_distinct (BulkReassignReviewers r plan)"
  using assms unfolding BulkReassignReviewers_def
proof (induction plan arbitrary: r)
  case Nil
  then show ?case by simp
next
  case (Cons ra plan)
  let ?r1 = "reassignOne ra r"
  let ?k = "ra_PullRequestID ra"
  from Cons.prems(1,3) have inv1: "reviewers_distinct ?r1"
    by (intro reassignOne_distinct) simp_all
  have dist: "\<forall>k. distinct (filter (\<lambda>n. n \<noteq> '''')
                (map NewReviewerID (filter (\<lambda>ra. ra_PullRequestID ra = k) plan)))"
  proof
    fix k
    from Cons.prems(2) [rule_format, of k] show
      "distinct (filter (\<lambda>n. n \<noteq> '''')
           (map NewReviewerID (filter (\<lambda>ra. ra_PullRequestID ra = k) plan)))"
      by (simp split: if_splits)
  qed
  have fresh: "\<forall>ra' \<in> set plan. NewReviewerID ra' \<noteq> ''''
            \<longrightarrow> NewReviewerID ra' \<notin> set (reviewersAt ?r1 (ra_PullRequestID ra'))"
  proof (intro ballI impI)
    fix ra'
    assume ra': "ra' \<in> set plan" and ne: "NewReviewerID ra' \<noteq> ''''"
    from Cons.prems(3) ra' ne
    have old: "NewReviewerID ra' \<notin> set (reviewersAt r (ra_PullRequestID ra'))"
      by simp
    show "NewReviewerID ra' \<notin> set (reviewersAt ?r1 (ra_PullRequestID ra'))"
    proof (cases "ra_PullRequestID ra' = ?k")
      case False
      with old show ?thesis
        by (simp add: reassignOne_reviewers)
    next
      case True
      have "NewReviewerID ra \<noteq> '''' \<longrightarrow> NewReviewerID ra' \<noteq> NewReviewerID ra"
      proof
        assume "NewReviewerID ra \<noteq> ''''"
        with Cons.prems(2) [rule_format, of ?k]
        have "NewReviewerID ra \<notin> set (filter (\<lambda>n. n \<noteq> '''')
                (map NewReviewerID (filter (\<lambda>ra. ra_PullRequestID ra = ?k) plan)))"
          by simp
        moreover from ra' ne True
        have "NewReviewerID ra' \<in> set (filter (\<lambda>n. n \<noteq> '''')
                (map NewReviewerID (filter (\<lambda>ra. ra_PullRequestID ra = ?k) plan)))"
          by simp
        ultimately show "NewReviewerID ra' \<noteq> NewReviewerID ra"
          by metis
      qed
      with old True show ?thesis
        by (auto simp: reassignOne_reviewers)
    qed
  qed
  from Cons.IH [OF inv1 dist fresh] show ?case
    by simp
qed

lemma deactivationPlan_distinct:
  assumes pwf: "prs_wf r" and dist: "reviewers_distinct r"
  shows "reviewers_distinct (BulkReassignReviewers r (deactivationPlan r ids))"
proof (rule BulkReassignReviewers_distinct [OF dist])
  let ?A = "\<lambda>(k, p). Status p = PRStatusOpen \<and> (\<exists>x \<in> set (reviewersAt r k). x \<in> set ids)"
  let ?g = "\<lambda>k p. fst (processPRReassignments r p (reviewersAt r k) (\<lambda>x. x \<in> set ids))"
  let ?xs = "filter ?A (prs r)"
  have keys: "distinct (map fst ?xs)"
    using pwf by (simp add: prs_wf_def distinct_map_filter)
  have own: "\<forall>(k', p') \<in> set ?xs. \<forall>ra \<in> set (?g k' p'). ra_PullRequestID ra = k'"
  proof (intro ballI, clarify)
    fix k' p' ra
    assume "(k', p') \<in> set ?xs" and ra: "ra \<in> set (?g k' p')"
    then have "(k', p') \<in> set (prs r)" by simp
    with pwf have "PullRequestID p' = k'"
      by (auto simp: prs_wf_def)
    with processPRReassignments_records [of r p' "reviewersAt r k'" "\<lambda>x. x \<in> set ids"] ra
    show "ra_PullRequestID ra = k'" by blast
  qed
  have plan: "filter (\<lambda>ra. ra_PullRequestID ra = k) (deactivationPlan r ids)
                = concat (map (\<lambda>(k', p'). filter (\<lambda>ra. ra_PullRequestID ra = k) (?g k' p')) ?xs)"
    for k
    unfolding deactivationPlan_processed [OF pwf] filter_concat map_map
    by (rule arg_cong [where f = concat], rule map_cong [OF refl]) auto
  show "\<forall>k. distinct (filter (\<lambda>n. n \<noteq> '''')
               (map NewReviewerID (filter (\<lambda>ra. ra_PullRequestID ra = k) (deactivationPlan r ids))))"
  proof
    fix k
    show "distinct (filter (\<lambda>n. n \<noteq> '''')
               (map NewReviewerID (filter (\<lambda>ra. ra_PullRequestID ra = k) (deactivationPlan r ids))))"
    proof (cases "k \<in> fst ` set ?xs")
      case True
      then obtain p where "(k, p) \<in> set ?xs" by force
      from concat_one_key [OF keys this own]
      have "filter (\<lambda>ra. ra_PullRequestID ra = k) (deactivationPlan r ids) = ?g k p"
        unfolding plan .
      with processPRReassignments_fresh [of r p "reviewersAt r k" "\<lambda>x. x \<in> set ids"]
      show ?thesis by simp
    next
      case False
      from concat_other_keys [OF False own]
      have "filter (\<lambda>ra. ra_PullRequestID ra = k) (deactivationPlan r ids) = []"
        unfolding plan .
      then show ?thesis by simp
    qed
  qed
  show "\<forall>ra \<in> set (deactivationPlan r ids). NewReviewerID ra \<noteq> ''''
          \<longrightarrow> NewReviewerID ra \<notin> set (reviewersAt r (ra_PullRequestID ra))"
  proof (intro ballI impI)
    fix ra
    assume "ra \<in> set (deactivationPlan r ids)" and ne: "NewReviewerID ra \<noteq> ''''"
    then obtain k p where kp: "(k, p) \<in> set ?xs" and ra: "ra \<in> set (?g k p)"
      unfolding deactivationPlan_processed [OF pwf] by auto
    from own kp ra have "ra_PullRequestID ra = k" by blast
    with processPRReassignments_fresh [of r p "reviewersAt r k" "\<lambda>x. x \<in> set ids"] ra ne
    show "NewReviewerID ra \<notin> set (reviewersAt r (ra_PullRequestID ra))"
      by blast
  qed
qed

lemma repo_inv_prReviewers:
  assumes "repo_inv r" and "reviewers_distinct r'"
    and "users r' = users r" and "prs r' = prs r"
  shows "repo_inv r'"
proof -
  from assms(1) have "users_wf r" and "prs_wf r" and "authors_exist r"
    by (simp_all add: repo_inv_def)
  then have "users_wf r'" and "prs_wf r'" and "authors_exist r'"
    by (simp_all add: users_wf_def prs_wf_def authors_exist_def assms(3,4))
  with assms(2) show ?thesis
    by (simp add: repo_inv_def)
qed

lemma repo_inv_CreatePR:
  assumes inv: "repo_inv r" and perm: "\<forall>n. mset (Perm n) = mset [0..<n]"
  shows "repo_inv (fst (CreatePR r Perm now req))"
proof (cases "snd (CreatePR r Perm now req)")
  case (Inl e)
  then have "fst (CreatePR r Perm now req) = r"
    by (auto simp: CreatePR_def repo_CreatePR_def Let_def split: if_splits sum.splits)
  with inv show ?thesis by simp
next
  case (Inr resp)
  let ?id = "cpr_PullRequestID req"
  let ?pr = "\<lparr>PullRequestID = ?id, PullRequestName = cpr_PullRequestName req,
              AuthorID = cpr_AuthorID req, Status = PRStatusOpen, CreatedAt = Some now,
              MergedAt = None\<rparr>"
  from inv have wf: "users_wf r" by (simp add: repo_inv_def)
  from Inr obtain r0 where ok: "CreatePR r Perm now req = (r0, Inr resp)"
    and r0: "fst (CreatePR r Perm now req) = r0"
    by (cases "CreatePR r Perm now req") simp
  from ok obtain author reviewers where
        author: "map_of (users r) (cpr_AuthorID req) = Some author"
    and sel: "selectReviewers Perm
                (GetActiveTeamMembers r (TeamName author) (cpr_AuthorID req)) 2 = Inr reviewers"
    and r': "r0
               = r\<lparr>prs := AList.update ?id ?pr (prs r),
                    prReviewers := AList.update ?id (map UserID reviewers) (prReviewers r)\<rparr>"
    by (auto simp: CreatePR_def GetUser_def repo_CreatePR_def Let_def
          split: if_splits option.splits sum.splits)
  let ?r1 = "r\<lparr>prs := AList.update ?id ?pr (prs r)\<rparr>"
  from selectReviewers_result [OF perm [rule_format] GetActiveTeamMembers_distinct [OF wf] sel]
  have dist: "distinct (map UserID reviewers)" by simp
  from inv have "prs_wf ?r1"
    by (simp add: repo_inv_def prs_wf_update)
  moreover have "authors_exist ?r1"
    unfolding authors_exist_def
  proof (rule ballI)
    fix q
    assume q_in: "q \<in> set (prs ?r1)"
    obtain k' p' where q: "q = (k', p')" by (cases q)
    with q_in have "(k', p') \<in> set (AList.update ?id ?pr (prs r))"
      by simp
    from update_entries [OF this] q have "q = (?id, ?pr) \<or> q \<in> set (prs r)"
      by simp
    with inv author show "case q of (k, p) \<Rightarrow> map_of (users ?r1) (AuthorID p) \<noteq> None"
      by (auto simp: repo_inv_def authors_exist_def)
  qed
  moreover from inv have "users_wf ?r1" and rd: "reviewers_distinct ?r1"
    by (simp_all add: repo_inv_def users_wf_def reviewers_distinct_def)
  ultimately have "repo_inv ?r1"
    by (simp add: repo_inv_def)
  moreover from reviewers_distinct_update [OF rd dist, of ?id]
  have "reviewers_distinct r0"
    by (simp add: r')
  ultimately show ?thesis
    unfolding r0 by (rule repo_inv_prReviewers) (simp_all add: r')
qed

lemma repo_inv_ReassignReviewer:
  assumes inv: "repo_inv r"
  shows "repo_inv (fst (ReassignReviewer r Intn req))"
proof (cases "snd (ReassignReviewer r Intn req)")
  case (Inl e)
  then have "fst (ReassignReviewer r Intn req) = r"
    by (auto simp: ReassignReviewer_def GetPRWithReviewers_def Let_def
          split: option.splits sum.splits if_splits)
  with inv show ?thesis by simp
next
  case (Inr resp)
  let ?id = "rr_PullRequestID req"
  let ?old = "OldUserID req"
  let ?revs = "reviewersAt r ?id"
  from Inr obtain r0 where ok: "ReassignReviewer r Intn req = (r0, Inr resp)"
    and r0: "fst (ReassignReviewer r Intn req) = r0"
    by (cases "ReassignReviewer r Intn req") simp
  from ok obtain pr :: PullRequest and oldUser :: User and new :: User where
        new: "indexAt (filterAvailableReviewers
                         (GetActiveTeamMembers r (TeamName oldUser) ?old) pr ?revs)
                (Intn (length (filterAvailableReviewers
                         (GetActiveTeamMembers r (TeamName oldUser) ?old) pr ?revs)))
              = Inr new"
    and r': "r0 = AddReviewer (RemoveReviewer r ?id ?old) ?id (UserID new)"
    by (auto simp: ReassignReviewer_def GetPRWithReviewers_def GetUser_def Let_def
             split: option.splits sum.splits if_splits)
  from indexAt_member [OF new] have fresh: "UserID new \<notin> set ?revs"
    by (simp add: filterAvailableReviewers_def)
  from inv have rd: "reviewers_distinct r" by (simp add: repo_inv_def)
  note d = reviewers_distinct_at [OF rd, of ?id]
  let ?r1 = "RemoveReviewer r ?id ?old"
  from d have "distinct (remove1 ?old ?revs)" by simp
  from reviewers_distinct_update [OF rd this, of ?id] rd have rd1: "reviewers_distinct ?r1"
    by (simp add: RemoveReviewer_def)
  from d fresh have "distinct (reviewersAt ?r1 ?id @ [UserID new])"
    using set_remove1_subset [of ?old ?revs] by auto
  from reviewers_distinct_update [OF rd1 this, of ?id]
  have "reviewers_distinct (AddReviewer ?r1 ?id (UserID new))"
    by (simp add: AddReviewer_def)
  with inv show ?thesis
    unfolding r0 r' by (rule repo_inv_prReviewers) simp_all
qed

lemma repo_inv_DeactivateTeamUsers:
  assumes inv: "repo_inv r"
  shows "repo_inv (fst (DeactivateTeamUsers r req))"
proof (cases "snd (DeactivateTeamUsers r req)")
  case (Inl e)
  then have "fst (DeactivateTeamUsers r req) = r"
    by (auto simp: DeactivateTeamUsers_def split: sum.splits prod.splits)
  with inv show ?thesis by simp
next
  case (Inr resp)
  let ?ids = "filterValidTeamUsers r req"
  let ?r1 = "BulkReassignReviewers r (deactivationPlan r ?ids)"
  let ?r' = "DeactivateUsers ?r1 ?ids"
  from Inr have "DeactivateTeamUsers r req = (fst (DeactivateTeamUsers r req), Inr resp)"
    by (simp add: prod_eq_iff)
  from DeactivateTeamUsers_success [OF this] have r': "fst (DeactivateTeamUsers r req) = ?r'"
    by simp
  from inv have pwf: "prs_wf r" and rd: "reviewers_distinct r" and wf: "users_wf r"
    and au: "authors_exist r"
    by (simp_all add: repo_inv_def)
  from deactivationPlan_distinct [OF pwf rd, of ?ids]
  have "reviewers_distinct ?r'"
    by (simp add: reviewers_distinct_def)
  moreover from wf have "users_wf ?r'"
    unfolding users_wf_def DeactivateUsers_def
    using deactivateOne_fold_wf [of "users r" ?ids] by simp
  moreover from pwf have "prs_wf ?r'"
    by (simp add: prs_wf_def)
  moreover from au have "authors_exist ?r'"
    by (rule authors_exist_users)
       (simp_all add: DeactivateUsers_def deactivateOne_lookup split: option.splits)
  ultimately show ?thesis
    by (simp add: r' repo_inv_def)
qed

text \<open>
  The conditions the theorems above assume of a repository hold of every repository the
  services can reach from the empty one.
\<close>

theorem reachable_inv: "reachable r \<Longrightarrow> repo_inv r"
proof (induction rule: reachable.induct)
  case reach_new
  show ?case by (rule repo_inv_New)
next
  case (reach_CreateTeam r req)
  then show ?case by (simp add: repo_inv_CreateTeam)
next
  case (reach_SetUserActive r sreq)
  then show ?case by (simp add: repo_inv_SetUserActive)
next
  case (reach_CreatePR r Perm now creq)
  then show ?case by (simp add: repo_inv_CreatePR)
next
  case (reach_MergePR r now prID)
  then show ?case by (simp add: repo_inv_MergePR)
next
  case (reach_ReassignReviewer r Intn rreq)
  then show ?case by (simp add: repo_inv_ReassignReviewer)
next
  case (reach_DeactivateTeamUsers r dreq)
  then show ?case by (simp add: repo_inv_DeactivateTeamUsers)
qed

section \<open>Every reviewer in a reachable repository is a stored user\<close>

lemma reviewers_exist_at:
  assumes "reviewers_exist r" and "u \<in> set (reviewersAt r k)"
  shows "map_of (users r) u \<noteq> None"
proof (cases "map_of (prReviewers r) k")
  case None
  with assms(2) show ?thesis
    by (simp add: reviewersAt_def)
next
  case (Some revs)
  then have "(k, revs) \<in> set (prReviewers r)"
    by (rule map_of_SomeD)
  with assms(1) have "\<forall>u \<in> set revs. map_of (users r) u \<noteq> None"
    unfolding reviewers_exist_def by blast
  with assms(2) Some show ?thesis
    by (simp add: reviewersAt_def)
qed

lemma reviewers_exist_update:
  assumes "reviewers_exist r" and "\<forall>u \<in> set revs. map_of (users r) u \<noteq> None"
  shows "reviewers_exist (r\<lparr>prReviewers := AList.update k revs (prReviewers r)\<rparr>)"
  using assms unfolding reviewers_exist_def by (auto dest!: update_entries)

lemma reviewers_exist_users:
  assumes "reviewers_exist r" and "prReviewers r' = prReviewers r"
    and "\<And>a. map_of (users r) a \<noteq> None \<Longrightarrow> map_of (users r') a \<noteq> None"
  shows "reviewers_exist r'"
  unfolding reviewers_exist_def
proof (intro ballI)
  fix q
  assume "q \<in> set (prReviewers r')"
  with assms(1,2) have "case q of (k, revs) \<Rightarrow> \<forall>u \<in> set revs. map_of (users r) u \<noteq> None"
    unfolding reviewers_exist_def by simp
  with assms(3) show "case q of (k, revs) \<Rightarrow> \<forall>u \<in> set revs. map_of (users r') u \<noteq> None"
    by (cases q) simp
qed

lemma firstValidCandidate_member:
  "firstValidCandidate cands a assigned deact = ''''
   \<or> firstValidCandidate cands a assigned deact \<in> UserID ` set cands"
  by (induction cands) auto

lemma findReviewerReplacement_stored:
  assumes "users_wf r"
  shows "findReviewerReplacement r x author assigned deact = ''''
       \<or> map_of (users r) (findReviewerReplacement r x author assigned deact) \<noteq> None"
proof (cases "GetUser r x")
  case (Inl e)
  then show ?thesis
    by (simp add: findReviewerReplacement_def)
next
  case (Inr reviewer)
  let ?cands = "GetActiveTeamMembers r (TeamName reviewer) x"
  let ?c = "firstValidCandidate ?cands (UserID author) assigned deact"
  from Inr have eq: "findReviewerReplacement r x author assigned deact = ?c"
    by (simp add: findReviewerReplacement_def)
  from firstValidCandidate_member [of ?cands "UserID author" assigned deact]
  show ?thesis
  proof
    assume "?c = ''''"
    with eq show ?thesis by simp
  next
    assume "?c \<in> UserID ` set ?cands"
    then obtain u where "u \<in> set ?cands" and "?c = UserID u"
      by blast
    with GetActiveTeamMembers_stored [OF assms, of u "TeamName reviewer" x] eq
    show ?thesis by simp
  qed
qed

lemma replaceRemoved_stored:
  assumes "users_wf r"
    and "\<forall>ra \<in> set recs. NewReviewerID ra = '''' \<or> map_of (users r) (NewReviewerID ra) \<noteq> None"
  shows "\<forall>ra \<in> set (fst (replaceRemoved r pr author deact cur (recs, olds, news, assigned))).
           NewReviewerID ra = '''' \<or> map_of (users r) (NewReviewerID ra) \<noteq> None"
  using assms(2)
proof (induction cur arbitrary: recs olds news assigned)
  case Nil
  then show ?case by simp
next
  case (Cons x cur)
  show ?case
  proof (cases "deact x")
    case False
    with Cons.IH [OF Cons.prems] show ?thesis by simp
  next
    case True
    let ?c = "findReviewerReplacement r x author assigned deact"
    let ?rec = "\<lparr>ra_PullRequestID = PullRequestID pr, OldReviewerID = x, NewReviewerID = ?c\<rparr>"
    from Cons.prems findReviewerReplacement_stored [OF assms(1), of x author assigned deact]
    have "\<forall>ra \<in> set (recs @ [?rec]).
            NewReviewerID ra = '''' \<or> map_of (users r) (NewReviewerID ra) \<noteq> None"
      by auto
    from Cons.IH [OF this] True show ?thesis
      by (simp add: Let_def)
  qed
qed

lemma processPRReassignments_stored:
  assumes "users_wf r"
  shows "\<forall>ra \<in> set (fst (processPRReassignments r pr cur deact)).
           NewReviewerID ra = '''' \<or> map_of (users r) (NewReviewerID ra) \<noteq> None"
proof (cases "GetUser r (AuthorID pr)")
  case (Inl e)
  then show ?thesis
    by (simp add: processPRReassignments_def)
next
  case (Inr author)
  let ?assigned = "\<lambda>x. x \<in> set cur \<and> \<not> deact x"
  let ?news = "filter (\<lambda>x. \<not> deact x) cur"
  let ?run = "replaceRemoved r pr author deact cur ([], [], ?news, ?assigned)"
  from Inr have "fst (processPRReassignments r pr cur deact) = fst ?run"
    by (simp add: processPRReassignments_def keepStaying_result split: prod.splits)
  with replaceRemoved_stored [OF assms, of "[]" pr author deact cur "[]" ?news ?assigned]
  show ?thesis by simp
qed

lemma deactivationPlan_stored:
  assumes "users_wf r" and "prs_wf r"
  shows "\<forall>ra \<in> set (deactivationPlan r ids).
           NewReviewerID ra = '''' \<or> map_of (users r) (NewReviewerID ra) \<noteq> None"
proof
  fix ra
  assume "ra \<in> set (deactivationPlan r ids)"
  then obtain k p where
    "ra \<in> set (fst (processPRReassignments r p (reviewersAt r k) (\<lambda>x. x \<in> set ids)))"
    unfolding deactivationPlan_processed [OF assms(2)] by auto
  with processPRReassignments_stored [OF assms(1), of p "reviewersAt r k" "\<lambda>x. x \<in> set ids"]
  show "NewReviewerID ra = '''' \<or> map_of (users r) (NewReviewerID ra) \<noteq> None"
    by blast
qed

lemma reassignOne_exist:
  assumes "reviewers_exist r"
    and "NewReviewerID ra = '''' \<or> map_of (users r) (NewReviewerID ra) \<noteq> None"
  shows "reviewers_exist (reassignOne ra r)"
proof -
  let ?revs = "reviewersAt r (ra_PullRequestID ra)"
  let ?new = "filter (\<lambda>x. x \<noteq> OldReviewerID ra) ?revs
                @ (if NewReviewerID ra \<noteq> '''' then [NewReviewerID ra] else [])"
  have "\<forall>u \<in> set ?new. map_of (users r) u \<noteq> None"
    using reviewers_exist_at [OF assms(1), of _ "ra_PullRequestID ra"] assms(2) by auto
  from reviewers_exist_update [OF assms(1) this, of "ra_PullRequestID ra"]
  show ?thesis
    by (cases "NewReviewerID ra = ''''") (simp_all add: reassignOne_def Let_def)
qed

lemma BulkReassignReviewers_exist:
  assumes "reviewers_exist r"
    and "\<forall>ra \<in> set plan. NewReviewerID ra = '''' \<or> map_of (users r) (NewReviewerID ra) \<noteq> None"
  shows "reviewers_exist (BulkReassignReviewers r plan)"
  using assms unfolding BulkReassignReviewers_def
proof (induction plan arbitrary: r)
  case Nil
  then show ?case by simp
next
  case (Cons ra plan)
  from Cons.prems have "reviewers_exist (reassignOne ra r)"
    by (intro reassignOne_exist) simp_all
  moreover have "users (reassignOne ra r) = users r"
    by (simp add: reassignOne_def Let_def)
  ultimately show ?case
    using Cons.IH [of "reassignOne ra r"] Cons.prems(2) by simp
qed

lemma reviewers_exist_CreateTeam:
  assumes "reviewers_exist r"
  shows "reviewers_exist (fst (CreateTeam r req))"
proof (cases "TeamExists r (ctr_TeamName req)")
  case True
  then have "fst (CreateTeam r req) = r"
    by (simp add: CreateTeam_def)
  with assms show ?thesis by simp
next
  case False
  let ?members = "map (\<lambda>m. \<lparr>UserID = tm_UserID m, Username = tm_Username m,
                              TeamName = ctr_TeamName req, IsActive = tm_IsActive m\<rparr>)
                      (ctr_Members req)"
  let ?r' = "fst (CreateTeam r req)"
  from False have us: "users ?r' = fold (storeMember (ctr_TeamName req)) ?members (users r)"
    and rv: "prReviewers ?r' = prReviewers r"
    by (simp_all add: CreateTeam_def repo_CreateTeam_def TeamExists_def Let_def)
  from assms rv show ?thesis
    by (rule reviewers_exist_users) (simp add: us storeMember_fold_keeps)
qed

lemma reviewers_exist_SetUserActive:
  assumes "reviewers_exist r"
  shows "reviewers_exist (fst (SetUserActive r req))"
proof (cases "map_of (users r) (sia_UserID req)")
  case None
  then have "fst (SetUserActive r req) = r"
    by (simp add: SetUserActive_def GetUser_def)
  with assms show ?thesis by simp
next
  case (Some u)
  let ?r' = "r\<lparr>users := AList.update (sia_UserID req) (u\<lparr>IsActive := sia_IsActive req\<rparr>) (users r)\<rparr>"
  from Some have r': "fst (SetUserActive r req) = ?r'"
    by (simp add: SetUserActive_def GetUser_def repo_SetUserActive_def)
  from assms have "reviewers_exist ?r'"
    by (rule reviewers_exist_users) (simp_all add: update_conv')
  with r' show ?thesis by simp
qed

lemma reviewers_exist_CreatePR:
  assumes ex: "reviewers_exist r" and wf: "users_wf r"
    and perm: "\<forall>n. mset (Perm n) = mset [0..<n]"
  shows "reviewers_exist (fst (CreatePR r Perm now req))"
proof (cases "snd (CreatePR r Perm now req)")
  case (Inl e)
  then have "fst (CreatePR r Perm now req) = r"
    by (auto simp: CreatePR_def repo_CreatePR_def Let_def split: if_splits sum.splits)
  with ex show ?thesis by simp
next
  case (Inr resp)
  let ?id = "cpr_PullRequestID req"
  let ?pr = "\<lparr>PullRequestID = ?id, PullRequestName = cpr_PullRequestName req,
              AuthorID = cpr_AuthorID req, Status = PRStatusOpen, CreatedAt = Some now,
              MergedAt = None\<rparr>"
  from Inr obtain r0 where ok: "CreatePR r Perm now req = (r0, Inr resp)"
    and r0: "fst (CreatePR r Perm now req) = r0"
    by (cases "CreatePR r Perm now req") simp
  from ok obtain author :: User and reviewers where
        sel: "selectReviewers Perm
                (GetActiveTeamMembers r (TeamName author) (cpr_AuthorID req)) 2 = Inr reviewers"
    and r': "r0
               = r\<lparr>prs := AList.update ?id ?pr (prs r),
                    prReviewers := AList.update ?id (map UserID reviewers) (prReviewers r)\<rparr>"
    by (auto simp: CreatePR_def GetUser_def repo_CreatePR_def Let_def
          split: if_splits option.splits sum.splits)
  from selectReviewers_result [OF perm [rule_format] GetActiveTeamMembers_distinct [OF wf] sel]
  have sub: "set reviewers \<subseteq> set (GetActiveTeamMembers r (TeamName author) (cpr_AuthorID req))"
    by simp
  have "\<forall>u \<in> set (map UserID reviewers). map_of (users r) u \<noteq> None"
  proof
    fix u
    assume "u \<in> set (map UserID reviewers)"
    then obtain c where "c \<in> set reviewers" and "u = UserID c" by auto
    with sub GetActiveTeamMembers_stored [OF wf, of c "TeamName author" "cpr_AuthorID req"]
    show "map_of (users r) u \<noteq> None" by auto
  qed
  from reviewers_exist_update [OF ex this, of ?id]
  have "reviewers_exist (r\<lparr>prReviewers := AList.update ?id (map UserID reviewers) (prReviewers r)\<rparr>)" .
  then have "reviewers_exist r0"
    by (rule reviewers_exist_users) (simp_all add: r')
  with r0 show ?thesis by simp
qed

lemma reviewers_exist_MergePR:
  assumes "reviewers_exist r"
  shows "reviewers_exist (fst (MergePR r now prID))"
proof -
  have "prReviewers (fst (MergePR r now prID)) = prReviewers r"
    and "users (fst (MergePR r now prID)) = users r"
    by (auto simp: MergePR_def GetPRWithReviewers_def repo_MergePR_def Let_def
          split: option.splits sum.splits if_splits)
  with assms show ?thesis
    by (intro reviewers_exist_users [OF assms]) simp_all
qed

lemma reviewers_exist_ReassignReviewer:
  assumes ex: "reviewers_exist r" and wf: "users_wf r"
  shows "reviewers_exist (fst (ReassignReviewer r Intn req))"
proof (cases "snd (ReassignReviewer r Intn req)")
  case (Inl e)
  then have "fst (ReassignReviewer r Intn req) = r"
    by (auto simp: ReassignReviewer_def GetPRWithReviewers_def Let_def
          split: option.splits sum.splits if_splits)
  with ex show ?thesis by simp
next
  case (Inr resp)
  let ?id = "rr_PullRequestID req"
  let ?old = "OldUserID req"
  let ?revs = "reviewersAt r ?id"
  from Inr obtain r0 where ok: "ReassignReviewer r Intn req = (r0, Inr resp)"
    and r0: "fst (ReassignReviewer r Intn req) = r0"
    by (cases "ReassignReviewer r Intn req") simp
  from ok obtain pr :: PullRequest and oldUser :: User and new :: User where
        new: "indexAt (filterAvailableReviewers
                         (GetActiveTeamMembers r (TeamName oldUser) ?old) pr ?revs)
                (Intn (length (filterAvailableReviewers
                         (GetActiveTeamMembers r (TeamName oldUser) ?old) pr ?revs)))
              = Inr new"
    and r': "r0 = AddReviewer (RemoveReviewer r ?id ?old) ?id (UserID new)"
    by (auto simp: ReassignReviewer_def GetPRWithReviewers_def GetUser_def Let_def
             split: option.splits sum.splits if_splits)
  from indexAt_member [OF new]
  have "new \<in> set (GetActiveTeamMembers r (TeamName oldUser) ?old)"
    by (simp add: filterAvailableReviewers_def)
  from GetActiveTeamMembers_stored [OF wf this]
  have stored: "map_of (users r) (UserID new) \<noteq> None" by simp
  let ?r1 = "RemoveReviewer r ?id ?old"
  have "\<forall>u \<in> set (remove1 ?old ?revs). map_of (users r) u \<noteq> None"
    using reviewers_exist_at [OF ex, of _ ?id] set_remove1_subset [of ?old ?revs] by blast
  from reviewers_exist_update [OF ex this, of ?id] ex have ex1: "reviewers_exist ?r1"
    by (simp add: RemoveReviewer_def)
  have us1: "users ?r1 = users r"
    by (simp add: RemoveReviewer_def)
  have "\<forall>u \<in> set (reviewersAt ?r1 ?id @ [UserID new]). map_of (users ?r1) u \<noteq> None"
    using reviewers_exist_at [OF ex1, of _ ?id] stored us1 by auto
  from reviewers_exist_update [OF ex1 this, of ?id]
  have "reviewers_exist (AddReviewer ?r1 ?id (UserID new))"
    by (simp add: AddReviewer_def)
  with r0 r' show ?thesis by simp
qed

lemma reviewers_exist_DeactivateTeamUsers:
  assumes ex: "reviewers_exist r" and wf: "users_wf r" and pwf: "prs_wf r"
  shows "reviewers_exist (fst (DeactivateTeamUsers r req))"
proof (cases "snd (DeactivateTeamUsers r req)")
  case (Inl e)
  then have "fst (DeactivateTeamUsers r req) = r"
    by (auto simp: DeactivateTeamUsers_def split: sum.splits prod.splits)
  with ex show ?thesis by simp
next
  case (Inr resp)
  let ?ids = "filterValidTeamUsers r req"
  let ?r1 = "BulkReassignReviewers r (deactivationPlan r ?ids)"
  let ?r' = "DeactivateUsers ?r1 ?ids"
  from Inr have "DeactivateTeamUsers r req = (fst (DeactivateTeamUsers r req), Inr resp)"
    by (simp add: prod_eq_iff)
  from DeactivateTeamUsers_success [OF this] have r': "fst (DeactivateTeamUsers r req) = ?r'"
    by simp
  from BulkReassignReviewers_exist [OF ex deactivationPlan_stored [OF wf pwf]]
  have "reviewers_exist ?r1" .
  then have "reviewers_exist ?r'"
    by (rule reviewers_exist_users)
       (simp_all add: DeactivateUsers_def deactivateOne_lookup split: option.splits)
  with r' show ?thesis by simp
qed

text \<open>
  An assigned reviewer is therefore always found by \<open>GetUser\<close>: in a reachable
  repository \<open>ReassignReviewer\<close> cannot fail with \<open>ErrUserNotFound\<close> once the old reviewer
  has been found among the reviewers of the pull request.
\<close>

theorem reachable_reviewers_exist: "reachable r \<Longrightarrow> reviewers_exist r"
proof (induction rule: reachable.induct)
  case reach_new
  show ?case
    by (simp add: reviewers_exist_def NewMemoryRepository_def)
next
  case (reach_CreateTeam r req)
  then show ?case by (simp add: reviewers_exist_CreateTeam)
next
  case (reach_SetUserActive r sreq)
  then show ?case by (simp add: reviewers_exist_SetUserActive)
next
  case (reach_CreatePR r Perm now creq)
  from reachable_inv [OF reach_CreatePR.hyps(1)] have "users_wf r"
    by (simp add: repo_inv_def)
  with reach_CreatePR show ?case by (simp add: reviewers_exist_CreatePR)
next
  case (reach_MergePR r now prID)
  then show ?case by (simp add: reviewers_exist_MergePR)
next
  case (reach_ReassignReviewer r Intn rreq)
  from reachable_inv [OF reach_ReassignReviewer.hyps] have "users_wf r"
    by (simp add: repo_inv_def)
  with reach_ReassignReviewer show ?case by (simp add: reviewers_exist_ReassignReviewer)
next
  case (reach_DeactivateTeamUsers r dreq)
  from reachable_inv [OF reach_DeactivateTeamUsers.hyps] have "users_wf r" and "prs_wf r"
    by (simp_all add: repo_inv_def)
  with reach_DeactivateTeamUsers show ?case by (simp add: reviewers_exist_DeactivateTeamUsers)
qed

section \<open>User ids stay non-empty\<close>

text \<open>
  Only \<open>CreateTeam\<close> files users under new ids. When the members it is given carry
  non-empty ids, no operation of the services introduces a user whose id is empty.
\<close>

lemma ids_update:
  assumes "\<forall>(k, u) \<in> set us. UserID u \<noteq> ''''" and "UserID v \<noteq> ''''"
  shows "\<forall>(k, u) \<in> set (AList.update k' v us). UserID u \<noteq> ''''"
  using assms by (auto dest!: update_entries)

lemma storeMember_fold_ids:
  assumes "\<forall>(k, u) \<in> set us. UserID u \<noteq> ''''" and "\<forall>m \<in> set members. UserID m \<noteq> ''''"
  shows "\<forall>(k, u) \<in> set (fold (storeMember t) members us). UserID u \<noteq> ''''"
  using assms
proof (induction members arbitrary: us)
  case Nil
  then show ?case by simp
next
  case (Cons m members)
  from Cons.prems have "UserID (m\<lparr>TeamName := t\<rparr>) \<noteq> ''''" by simp
  from ids_update [OF Cons.prems(1) this]
  have "\<forall>(k, u) \<in> set (storeMember t m us). UserID u \<noteq> ''''"
    by (simp add: storeMember_def)
  from Cons.IH [OF this] Cons.prems(2) show ?case by simp
qed

lemma deactivateOne_fold_ids:
  assumes "\<forall>(k, u) \<in> set us. UserID u \<noteq> ''''"
  shows "\<forall>(k, u) \<in> set (fold deactivateOne ids us). UserID u \<noteq> ''''"
  using assms
proof (induction ids arbitrary: us)
  case Nil
  then show ?case by simp
next
  case (Cons i ids)
  have "\<forall>(k, u) \<in> set (deactivateOne i us). UserID u \<noteq> ''''"
  proof (cases "map_of us i")
    case None
    with Cons.prems show ?thesis by (simp add: deactivateOne_def)
  next
    case (Some u)
    then have "(i, u) \<in> set us" by (rule map_of_SomeD)
    with Cons.prems have "UserID (u\<lparr>IsActive := False\<rparr>) \<noteq> ''''" by auto
    from ids_update [OF Cons.prems this] Some show ?thesis
      by (simp add: deactivateOne_def)
  qed
  from Cons.IH [OF this] show ?case by simp
qed

lemma ids_nonempty_CreateTeam:
  assumes "ids_nonempty r" and "\<forall>m \<in> set (ctr_Members req). tm_UserID m \<noteq> ''''"
  shows "ids_nonempty (fst (CreateTeam r req))"
proof (cases "TeamExists r (ctr_TeamName req)")
  case True
  then have "fst (CreateTeam r req) = r"
    by (simp add: CreateTeam_def)
  with assms show ?thesis by simp
next
  case False
  let ?members = "map (\<lambda>m. \<lparr>UserID = tm_UserID m, Username = tm_Username m,
                              TeamName = ctr_TeamName req, IsActive = tm_IsActive m\<rparr>)
                      (ctr_Members req)"
  from False have us: "users (fst (CreateTeam r req))
                         = fold (storeMember (ctr_TeamName req)) ?members (users r)"
    by (simp add: CreateTeam_def repo_CreateTeam_def TeamExists_def Let_def)
  from assms(2) have "\<forall>m \<in> set ?members. UserID m \<noteq> ''''" by simp
  with assms(1) show ?thesis
    unfolding ids_nonempty_def us by (intro storeMember_fold_ids) simp_all
qed

lemma ids_nonempty_SetUserActive:
  assumes "ids_nonempty r"
  shows "ids_nonempty (fst (SetUserActive r req))"
proof (cases "map_of (users r) (sia_UserID req)")
  case None
  then have "fst (SetUserActive r req) = r"
    by (simp add: SetUserActive_def GetUser_def)
  with assms show ?thesis by simp
next
  case (Some u)
  let ?u' = "u\<lparr>IsActive := sia_IsActive req\<rparr>"
  from Some have us: "users (fst (SetUserActive r req))
                        = AList.update (sia_UserID req) ?u' (users r)"
    by (simp add: SetUserActive_def GetUser_def repo_SetUserActive_def)
  from Some have "(sia_UserID req, u) \<in> set (users r)" by (rule map_of_SomeD)
  with assms have "UserID ?u' \<noteq> ''''"
    by (auto simp: ids_nonempty_def)
  with assms show ?thesis
    unfolding ids_nonempty_def us by (intro ids_update) simp_all
qed

lemma ids_nonempty_PR_service:
  assumes "ids_nonempty r"
  shows "ids_nonempty (fst (CreatePR r Perm now creq))"
    and "ids_nonempty (fst (MergePR r now prID))"
    and "ids_nonempty (fst (ReassignReviewer r Intn rreq))"
proof -
  have "users (fst (CreatePR r Perm now creq)) = users r"
    by (auto simp: CreatePR_def repo_CreatePR_def Let_def split: if_splits sum.splits)
  with assms show "ids_nonempty (fst (CreatePR r Perm now creq))"
    by (simp add: ids_nonempty_def)
  have "users (fst (MergePR r now prID)) = users r"
    by (auto simp: MergePR_def GetPRWithReviewers_def repo_MergePR_def Let_def
          split: option.splits sum.splits if_splits)
  with assms show "ids_nonempty (fst (MergePR r now prID))"
    by (simp add: ids_nonempty_def)
  have "users (fst (ReassignReviewer r Intn rreq)) = users r"
    by (auto simp: ReassignReviewer_def GetPRWithReviewers_def Let_def
          split: option.splits sum.splits if_splits)
  with assms show "ids_nonempty (fst (ReassignReviewer r Intn rreq))"
    by (simp add: ids_nonempty_def)
qed

lemma ids_nonempty_DeactivateTeamUsers:
  assumes "ids_nonempty r"
  shows "ids_nonempty (fst (DeactivateTeamUsers r req))"
proof (cases "snd (DeactivateTeamUsers r req)")
  case (Inl e)
  then have "fst (DeactivateTeamUsers r req) = r"
    by (auto simp: DeactivateTeamUsers_def split: sum.splits prod.splits)
  with assms show ?thesis by simp
next
  case (Inr resp)
  then have "DeactivateTeamUsers r req = (fst (DeactivateTeamUsers r req), Inr resp)"
    by (simp add: prod_eq_iff)
  from DeactivateTeamUsers_success [OF this]
  have "users (fst (DeactivateTeamUsers r req))
          = fold deactivateOne (filterValidTeamUsers r req) (users r)"
    by (simp add: DeactivateUsers_def)
  with assms deactivateOne_fold_ids [of "users r" "filterValidTeamUsers r req"]
  show ?thesis
    by (simp add: ids_nonempty_def)
qed

end
